theory Spec2Isabelle
  imports Main "HOL-Library.Char_ord"
begin

section \<open>Einstein summation over N-dimensional arrays\<close>

text \<open>
  A shallow embedding of \<^verbatim>\<open>cupy/linalg/einsum.py\<close>: the four view calculators, the helper
  \<^verbatim>\<open>get_dummy_labels\<close> and the entry point \<^verbatim>\<open>einsum\<close>.

  An array is a dtype tag, a shape and an index function. Element values live in a
  commutative semiring and arithmetic is exact: rounding and overflow of the concrete
  element types are outside the model, so a cast changes the dtype tag only.
  Exceptions are values of \<open>error\<close>; every call of an array primitive is recorded in
  an event log, so that the order of device work and of raised errors can be stated.
\<close>

subsection \<open>Arrays\<close>

record ('d, 'a) ndarray =
  dtype :: 'd
  shape :: "nat list"
  elem :: "nat list \<Rightarrow> 'a"

definition ndim :: "('d, 'a) ndarray \<Rightarrow> nat" where
  "ndim a = length (shape a)"

text \<open>All index tuples of a shape, in row-major order, and the elements in that order.\<close>

fun indices :: "nat list \<Rightarrow> nat list list" where
  "indices [] = [[]]"
| "indices (d # ds) = concat (map (\<lambda>i. map ((#) i) (indices ds)) [0..<d])"

definition to_list :: "('d, 'a) ndarray \<Rightarrow> 'a list" where
  "to_list a = map (elem a) (indices (shape a))"

text \<open>Two arrays are the same array value: same dtype, same shape, same elements.\<close>

definition array_eq :: "('d, 'a) ndarray \<Rightarrow> ('d, 'a) ndarray \<Rightarrow> bool" where
  "array_eq a b \<longleftrightarrow> dtype a = dtype b \<and> shape a = shape b \<and> to_list a = to_list b"

text \<open>An array literal: a shape and its elements in row-major order.\<close>

fun flat_index :: "nat list \<Rightarrow> nat list \<Rightarrow> nat" where
  "flat_index (d # ds) (i # is) = i * prod_list ds + flat_index ds is"
| "flat_index _ _ = 0"

definition mk_array :: "'d \<Rightarrow> nat list \<Rightarrow> 'a list \<Rightarrow> ('d, 'a) ndarray" where
  "mk_array d sh xs = \<lparr>dtype = d, shape = sh, elem = (\<lambda>idx. xs ! flat_index sh idx)\<rparr>"

subsection \<open>Errors and the event log\<close>

datatype error =
    UsageError
  | SubscriptsTypeError
  | EllipsisError
  | InvalidSubscriptError char
  | ResultTypeError
  | ConversionError
  | MalformedArrowError
  | UnknownOutputLabelError char
  | RepeatedOutputLabelError char
  | FewerOperandsError
  | MoreOperandsError
  | TooManySubscriptsError nat
  | TooFewSubscriptsError
  | AxisError
  | IndexError
  | AssertionError

datatype 'd event =
    EvAstype 'd
  | EvAsarray 'd
  | EvDiagonal nat nat
  | EvRollaxis int int
  | EvTensordot
  | EvSum "nat list"
  | EvTranspose "int list"

type_synonym ('d, 'r) m = "'d event list \<times> (error + 'r)"

definition ret :: "'r \<Rightarrow> ('d, 'r) m" where
  "ret x = ([], Inr x)"

definition raise :: "error \<Rightarrow> ('d, 'r) m" where
  "raise e = ([], Inl e)"

definition bind :: "('d, 'r) m \<Rightarrow> ('r \<Rightarrow> ('d, 's) m) \<Rightarrow> ('d, 's) m" where
  "bind c f = (case c of
       (ev, Inl e) \<Rightarrow> (ev, Inl e)
     | (ev, Inr x) \<Rightarrow> (case f x of (ev', r) \<Rightarrow> (ev @ ev', r)))"

text \<open>A call of an array primitive: logged when it succeeds, raised when it fails.\<close>

definition call :: "'d event \<Rightarrow> error + 'r \<Rightarrow> ('d, 'r) m" where
  "call e r = (case r of Inl err \<Rightarrow> ([], Inl err) | Inr x \<Rightarrow> ([e], Inr x))"

subsection \<open>The array primitives\<close>

text \<open>
  Modelled from the spec: the array type's \<^verbatim>\<open>astype\<close>, \<^verbatim>\<open>asarray\<close>, \<^verbatim>\<open>diagonal\<close>,
  \<^verbatim>\<open>rollaxis\<close>, \<^verbatim>\<open>transpose\<close>, \<^verbatim>\<open>sum\<close> and \<^verbatim>\<open>tensordot\<close> are not among the source files;
  they follow the collaborator contract of the spec (section 6) and the NumPy
  semantics the calculators rely on.
\<close>

definition astype :: "'d \<Rightarrow> ('d, 'a) ndarray \<Rightarrow> ('d, 'a) ndarray" where
  "astype d a = a\<lparr>dtype := d\<rparr>"

text \<open>
  \<^verbatim>\<open>a.diagonal(0, axis1, axis2)\<close>: both axes are removed and the diagonal becomes the
  last axis, of length the smaller of the two.
\<close>

definition insert_at :: "nat \<Rightarrow> 'b \<Rightarrow> 'b list \<Rightarrow> 'b list" where
  "insert_at i x xs = take i xs @ x # drop i xs"

definition delete_at :: "nat \<Rightarrow> 'b list \<Rightarrow> 'b list" where
  "delete_at i xs = take i xs @ drop (Suc i) xs"

definition diagonal :: "('d, 'a) ndarray \<Rightarrow> nat \<Rightarrow> nat \<Rightarrow> error + ('d, 'a) ndarray" where
  "diagonal a axis1 axis2 =
     (if axis1 < ndim a \<and> axis2 < ndim a \<and> axis1 \<noteq> axis2 then
        let lo = min axis1 axis2; hi = max axis1 axis2 in
        Inr \<lparr>dtype = dtype a,
             shape = delete_at lo (delete_at hi (shape a))
                       @ [min (shape a ! axis1) (shape a ! axis2)],
             elem = (\<lambda>idx. elem a (insert_at hi (last idx) (insert_at lo (last idx) (butlast idx))))\<rparr>
      else Inl AxisError)"

text \<open>
  \<^verbatim>\<open>a.transpose(axes)\<close>: axis \<open>i\<close> of the result is axis \<open>axes[i]\<close> of \<open>a\<close>; negative axes
  count from the end; the axes must be a permutation of the array's axes.
\<close>

fun first_index :: "'b list \<Rightarrow> 'b \<Rightarrow> nat" where
  "first_index [] y = 0"
| "first_index (x # xs) y = (if x = y then 0 else Suc (first_index xs y))"

definition ndarray_transpose :: "('d, 'a) ndarray \<Rightarrow> int list \<Rightarrow> error + ('d, 'a) ndarray" where
  "ndarray_transpose a axes =
     (let n = ndim a; norm = map (\<lambda>ax. nat (ax mod int n)) axes in
      if length axes = n \<and> (\<forall>ax \<in> set axes. - int n \<le> ax \<and> ax < int n) \<and> distinct norm then
        Inr \<lparr>dtype = dtype a,
             shape = map (\<lambda>ax. shape a ! ax) norm,
             elem = (\<lambda>idx. elem a (map (\<lambda>j. idx ! first_index norm j) [0..<n]))\<rparr>
      else Inl AxisError)"

text \<open>
  \<^verbatim>\<open>rollaxis(a, axis, start)\<close>: the axis is moved so that it ends before position
  \<open>start\<close>; the array itself is returned when nothing moves.
\<close>

definition rollaxis :: "('d, 'a) ndarray \<Rightarrow> int \<Rightarrow> int \<Rightarrow> error + ('d, 'a) ndarray" where
  "rollaxis a axis start =
     (let n = int (ndim a);
          axis = (if axis < 0 then axis + n else axis);
          start = (if start < 0 then start + n else start) in
      if \<not> (0 \<le> axis \<and> axis < n \<and> 0 \<le> start \<and> start \<le> n) then Inl AxisError
      else
        let start = (if axis < start then start - 1 else start) in
        if axis = start then Inr a
        else ndarray_transpose a
               (insert_at (nat start) axis (delete_at (nat axis) (map int [0..<ndim a]))))"

text \<open>
  \<^verbatim>\<open>tensordot(a, b, axes=0)\<close>: the outer product; the shapes are concatenated. The
  product of two arrays of one dtype has that dtype, otherwise the promoted one.
\<close>

definition tensordot :: "('d \<Rightarrow> 'd \<Rightarrow> 'd) \<Rightarrow> ('d, 'a::comm_semiring_0) ndarray
    \<Rightarrow> ('d, 'a) ndarray \<Rightarrow> ('d, 'a) ndarray" where
  "tensordot mul_dtype a b =
     \<lparr>dtype = (if dtype a = dtype b then dtype a else mul_dtype (dtype a) (dtype b)),
      shape = shape a @ shape b,
      elem = (\<lambda>idx. elem a (take (ndim a) idx) * elem b (drop (ndim a) idx))\<rparr>"

text \<open>
  \<^verbatim>\<open>a.sum(axis=axes)\<close>: one reduction over all the given axes. \<open>expand\<close> lists the
  source indices that are added up into one element of the result. The result has
  the accumulator's dtype, which may be wider than that of \<open>a\<close>.
\<close>

fun expand :: "nat list \<Rightarrow> nat \<Rightarrow> nat list \<Rightarrow> nat list \<Rightarrow> nat list list" where
  "expand [] i axes idx = [[]]"
| "expand (d # ds) i axes idx =
     (if i \<in> set axes
      then concat (map (\<lambda>k. map ((#) k) (expand ds (Suc i) axes idx)) [0..<d])
      else map ((#) (hd idx)) (expand ds (Suc i) axes (tl idx)))"

definition ndarray_sum :: "('d \<Rightarrow> 'd) \<Rightarrow> ('d, 'a::comm_semiring_0) ndarray \<Rightarrow> nat list
    \<Rightarrow> error + ('d, 'a) ndarray" where
  "ndarray_sum acc_dtype a axes =
     (if (\<forall>ax \<in> set axes. ax < ndim a) \<and> distinct axes then
        Inr \<lparr>dtype = acc_dtype (dtype a),
             shape = map (\<lambda>i. shape a ! i) (filter (\<lambda>i. i \<notin> set axes) [0..<ndim a]),
             elem = (\<lambda>idx. sum_list (map (elem a) (expand (shape a) 0 axes idx)))\<rparr>
      else Inl AxisError)"

subsection \<open>Operands and the environment\<close>

text \<open>
  An argument of \<^verbatim>\<open>einsum\<close> is a string, a device array, or an array-like value that
  \<^verbatim>\<open>asarray\<close> turns into the given array.
\<close>

datatype ('d, 'a) operand =
    Str string
  | Ndarray "('d, 'a) ndarray"
  | ArrayLike "('d, 'a) ndarray"

text \<open>
  What the code takes from its environment: NumPy's promotion of a non-empty argument
  list (\<open>None\<close> when it raises), the dtype of a product and of a sum's accumulator,
  and the order in which a Python set built from the given characters is iterated.
\<close>

record ('d, 'a) env =
  promote :: "('d, 'a) operand list \<Rightarrow> 'd option"
  mul_dtype :: "'d \<Rightarrow> 'd \<Rightarrow> 'd"
  acc_dtype :: "'d \<Rightarrow> 'd"
  set_iter :: "string \<Rightarrow> string"

text \<open>A set is iterated element by element, each element once.\<close>

definition iter_ok :: "('d, 'a) env \<Rightarrow> bool" where
  "iter_ok env \<longleftrightarrow> (\<forall>s. set (set_iter env s) = set s \<and> distinct (set_iter env s))"

text \<open>\<^verbatim>\<open>numpy.result_type(*ioperands)\<close> raises when it is given no argument at all.\<close>

definition numpy_result_type :: "('d, 'a) env \<Rightarrow> ('d, 'a) operand list \<Rightarrow> error + 'd" where
  "numpy_result_type env ioperands =
     (if ioperands = [] then Inl ResultTypeError
      else case promote env ioperands of None \<Rightarrow> Inl ResultTypeError | Some d \<Rightarrow> Inr d)"

subsection \<open>Strings\<close>

text \<open>\<^verbatim>\<open>s.find(sub)\<close>: the first position where \<open>sub\<close> starts, or \<open>-1\<close>.\<close>

fun str_find_from :: "string \<Rightarrow> string \<Rightarrow> nat \<Rightarrow> int" where
  "str_find_from [] sub i = (if sub = [] then int i else - 1)"
| "str_find_from (c # cs) sub i =
     (if take (length sub) (c # cs) = sub then int i else str_find_from cs sub (Suc i))"

definition str_find :: "string \<Rightarrow> string \<Rightarrow> int" where
  "str_find s sub = str_find_from s sub 0"

text \<open>\<^verbatim>\<open>s.split(',')\<close>.\<close>

fun split_comma :: "string \<Rightarrow> string list" where
  "split_comma [] = [[]]"
| "split_comma (c # cs) =
     (if c = CHR '','' then [] # split_comma cs
      else (case split_comma cs of [] \<Rightarrow> [[c]] | w # ws \<Rightarrow> (c # w) # ws))"

definition ascii_letters :: string where
  "ascii_letters = ''abcdefghijklmnopqrstuvwxyzABCDEFGHIJKLMNOPQRSTUVWXYZ''"

subsection \<open>SingleViewCalculator\<close>

text \<open>The axes that carry a label: the \<^verbatim>\<open>enumerate\<close> loop that fills \<^verbatim>\<open>axes_to_diag\<close>.\<close>

definition positions :: "char \<Rightarrow> string \<Rightarrow> nat list" where
  "positions label s = filter (\<lambda>i. s ! i = label) [0..<length s]"

text \<open>
  The inner loop, over \<^verbatim>\<open>reversed(axes_to_diag[1:])\<close>: take the diagonal of the axis
  and the label's first axis, roll it back to the first axis, drop the character.
\<close>

fun diag_loop :: "nat \<Rightarrow> nat list \<Rightarrow> ('d, 'a) ndarray \<times> string
    \<Rightarrow> ('d, ('d, 'a) ndarray \<times> string) m" where
  "diag_loop first [] st = ret st"
| "diag_loop first (axis # axes) (result, subscript) =
     bind (call (EvDiagonal axis first) (diagonal result axis first)) (\<lambda>r1.
     bind (call (EvRollaxis (- 1) (int first)) (rollaxis r1 (- 1) (int first))) (\<lambda>r2.
     diag_loop first axes (r2, take axis subscript @ drop (axis + 1) subscript)))"

text \<open>
  The outer loop, over the set of labels. The counts are those of the subscript the
  calculator was built with; the axes are looked up in the current subscript.
\<close>

fun label_loop :: "string \<Rightarrow> string \<Rightarrow> ('d, 'a) ndarray \<times> string
    \<Rightarrow> ('d, ('d, 'a) ndarray \<times> string) m" where
  "label_loop orig [] st = ret st"
| "label_loop orig (label # labels) (result, subscript) =
     (if count_list orig label = 1 then label_loop orig labels (result, subscript)
      else bind (case positions label subscript of
                   [] \<Rightarrow> ret (result, subscript)
                 | first # rest \<Rightarrow> diag_loop first (rev rest) (result, subscript))
                (label_loop orig labels))"

definition SingleViewCalculator :: "('d, 'a) env \<Rightarrow> ('d, 'a) ndarray \<Rightarrow> string
    \<Rightarrow> ('d, ('d, 'a) ndarray \<times> string) m" where
  "SingleViewCalculator env ioperand subscript =
     label_loop subscript (set_iter env subscript) (ioperand, subscript)"

subsection \<open>SummedViewCalculator\<close>

text \<open>
  The array given as the target of \<^verbatim>\<open>astype\<close> stands for its own dtype. The summed
  labels are removed from the subscript one label at a time.
\<close>

definition SummedViewCalculator :: "('d, 'a::comm_semiring_0) env \<Rightarrow> ('d, 'a) ndarray \<Rightarrow> string
    \<Rightarrow> string \<Rightarrow> ('d, ('d, 'a) ndarray \<times> string) m" where
  "SummedViewCalculator env ioperand input_subscript output_subscript =
     (let label_to_summed = filter (\<lambda>c. c \<notin> set output_subscript) input_subscript;
          axes_to_summed = filter (\<lambda>i. input_subscript ! i \<in> set label_to_summed)
                             [0..<length input_subscript];
          subscript = fold (\<lambda>label s. filter (\<lambda>c. c \<noteq> label) s)
                        (set_iter env label_to_summed) input_subscript in
      bind (if axes_to_summed \<noteq> [] then
              bind (call (EvSum axes_to_summed)
                      (ndarray_sum (acc_dtype env) ioperand axes_to_summed)) (\<lambda>s.
              call (EvAstype (dtype ioperand)) (Inr (astype (dtype ioperand) s)))
            else ret ioperand)
        (\<lambda>result. ret (result, subscript)))"

subsection \<open>TransposedViewCalculator\<close>

definition TransposedViewCalculator :: "('d, 'a) ndarray \<Rightarrow> string \<Rightarrow> string
    \<Rightarrow> ('d, ('d, 'a) ndarray) m" where
  "TransposedViewCalculator ioperand input_subscript output_subscript =
     (if length input_subscript \<noteq> length output_subscript then raise AssertionError
      else if set input_subscript \<noteq> set output_subscript then raise AssertionError
      else
        let transpose_orders = map (\<lambda>label. str_find input_subscript [label]) output_subscript in
        if transpose_orders = sort transpose_orders then ret ioperand
        else call (EvTranspose transpose_orders) (ndarray_transpose ioperand transpose_orders))"

subsection \<open>CombinedViewCalculator\<close>

fun tensordot_loop :: "('d, 'a::comm_semiring_0) env \<Rightarrow> ('d, 'a) ndarray
    \<Rightarrow> ('d, 'a) ndarray list \<Rightarrow> ('d, ('d, 'a) ndarray) m" where
  "tensordot_loop env result [] = ret result"
| "tensordot_loop env result (ioperand # rest) =
     bind (call EvTensordot (Inr (tensordot (mul_dtype env) result ioperand)))
       (\<lambda>r. tensordot_loop env r rest)"

definition CombinedViewCalculator :: "('d, 'a::comm_semiring_0) env \<Rightarrow> ('d, 'a) ndarray list
    \<Rightarrow> string list \<Rightarrow> ('d, ('d, 'a) ndarray \<times> string) m" where
  "CombinedViewCalculator env ioperands subscripts =
     (case ioperands of
        [] \<Rightarrow> raise IndexError
      | first # rest \<Rightarrow>
          bind (tensordot_loop env first rest) (\<lambda>result. ret (result, concat subscripts)))"

subsection \<open>einsum\<close>

definition get_dummy_labels :: "string \<Rightarrow> char set" where
  "get_dummy_labels label_list = {label \<in> set label_list. count_list label_list label \<ge> 2}"

text \<open>The conversion of the operands to their common dtype.\<close>

fun convert_loop :: "'d \<Rightarrow> ('d, 'a) operand list \<Rightarrow> ('d, ('d, 'a) ndarray list) m" where
  "convert_loop d [] = ret []"
| "convert_loop d (a # rest) =
     bind (case a of
             Ndarray x \<Rightarrow> call (EvAstype d) (Inr (astype d x))
           | ArrayLike x \<Rightarrow> call (EvAsarray d) (Inr (astype d x))
           | Str s \<Rightarrow> raise ConversionError) (\<lambda>c.
     bind (convert_loop d rest) (\<lambda>cs. ret (c # cs)))"

definition convert_inputs :: "('d, 'a) env \<Rightarrow> ('d, 'a) operand list
    \<Rightarrow> ('d, ('d, 'a) ndarray list) m" where
  "convert_inputs env ioperands =
     (case numpy_result_type env ioperands of
        Inl e \<Rightarrow> raise e
      | Inr d \<Rightarrow> convert_loop d ioperands)"

text \<open>The check of the arrow: only the first \<open>-\<close> is looked at.\<close>

definition check_arrow :: "string \<Rightarrow> ('d, unit) m" where
  "check_arrow subscripts =
     (let pos = str_find subscripts ''-'' in
      if pos = int (length subscripts) - 1 then raise MalformedArrowError
      else if pos \<noteq> - 1 \<and> subscripts ! nat (pos + 1) \<noteq> CHR ''>'' then raise MalformedArrowError
      else ret ())"

text \<open>The input side and the output subscript, implicit or explicit.\<close>

definition implicit_output :: "string \<Rightarrow> string" where
  "implicit_output input_subscripts =
     (let label_list = filter (\<lambda>c. c \<noteq> CHR '','') input_subscripts;
          out_label_set = set label_list - get_dummy_labels label_list in
      sorted_list_of_set out_label_set)"

definition split_output :: "('d, 'a) env \<Rightarrow> string \<Rightarrow> ('d, string \<times> string) m" where
  "split_output env subscripts =
     (let arrow_pos = str_find subscripts ''->'' in
      if arrow_pos = - 1 then ret (subscripts, implicit_output subscripts)
      else
        let input_subscripts = take (nat arrow_pos) subscripts;
            output_subscript = drop (nat arrow_pos + 2) subscripts;
            irregular_chars = filter (\<lambda>c. c \<notin> set input_subscripts) output_subscript in
        if irregular_chars \<noteq> [] then
          (case set_iter env irregular_chars of
             [] \<Rightarrow> raise IndexError
           | pickup # _ \<Rightarrow> raise (UnknownOutputLabelError pickup))
        else
          (case filter (\<lambda>key. count_list output_subscript key \<noteq> 1)
                  (set_iter env output_subscript) of
             [] \<Rightarrow> ret (input_subscripts, output_subscript)
           | key # _ \<Rightarrow> raise (RepeatedOutputLabelError key)))"

text \<open>The loop over the operands: the rank checks and the diagonal collapse.\<close>

fun i_parsers_loop :: "('d, 'a) env \<Rightarrow> nat \<Rightarrow> string list \<Rightarrow> ('d, 'a) ndarray list
    \<Rightarrow> ('d, (('d, 'a) ndarray \<times> string) list) m" where
  "i_parsers_loop env i [] converted_inputs = ret []"
| "i_parsers_loop env i (subscript # subscripts) converted_inputs =
     (case converted_inputs of
        [] \<Rightarrow> raise IndexError
      | ioperand # rest \<Rightarrow>
          if length subscript > ndim ioperand then raise (TooManySubscriptsError i)
          else if length subscript < ndim ioperand then raise TooFewSubscriptsError
          else
            bind (SingleViewCalculator env ioperand subscript) (\<lambda>calc.
            bind (i_parsers_loop env (Suc i) subscripts rest) (\<lambda>calcs. ret (calc # calcs))))"

text \<open>
  The second half of \<^verbatim>\<open>einsum\<close>, from the split of the input side at the commas on:
  the operand count, the loop over the operands, and the pipeline of calculators.
\<close>

definition einsum_compute :: "('d, 'a::comm_semiring_0) env \<Rightarrow> ('d, 'a) ndarray list
    \<Rightarrow> string \<Rightarrow> string \<Rightarrow> ('d, ('d, 'a) ndarray) m" where
  "einsum_compute env converted_inputs input_subscripts output_subscript =
     (let input_subscripts_list = split_comma input_subscripts in
      if length input_subscripts_list < length converted_inputs
      then raise FewerOperandsError
      else if length input_subscripts_list > length converted_inputs
      then raise MoreOperandsError
      else
        bind (i_parsers_loop env 0 input_subscripts_list converted_inputs) (\<lambda>i_parsers.
        bind (if length converted_inputs \<ge> 2 then
                bind (CombinedViewCalculator env (map fst i_parsers) (map snd i_parsers))
                  (\<lambda>(result, subscript). SingleViewCalculator env result subscript)
              else (case i_parsers of [] \<Rightarrow> raise IndexError | calc # _ \<Rightarrow> ret calc))
          (\<lambda>(result, subscript).
        bind (SummedViewCalculator env result subscript output_subscript)
          (\<lambda>(result, subscript).
        TransposedViewCalculator result subscript output_subscript))))"

text \<open>
  The first half: the checks of the arguments and of the characters, the conversion
  of the operands, the check of the arrow and the output subscript.
\<close>

definition einsum :: "('d, 'a::comm_semiring_0) env \<Rightarrow> ('d, 'a) operand list
    \<Rightarrow> ('d, ('d, 'a) ndarray) m" where
  "einsum env operands =
     (case operands of
        [] \<Rightarrow> raise UsageError
      | Ndarray _ # _ \<Rightarrow> raise SubscriptsTypeError
      | ArrayLike _ # _ \<Rightarrow> raise SubscriptsTypeError
      | Str subscripts0 # ioperands \<Rightarrow>
          if CHR ''.'' \<in> set subscripts0 then raise EllipsisError
          else
            let subscripts = filter (\<lambda>c. c \<noteq> CHR '' '') subscripts0;
                irregular_chars =
                  filter (\<lambda>c. c \<notin> set ascii_letters \<and> c \<notin> set ''->,'') subscripts in
            if irregular_chars \<noteq> [] then
              (case set_iter env irregular_chars of
                 [] \<Rightarrow> raise IndexError
               | pickup # _ \<Rightarrow> raise (InvalidSubscriptError pickup))
            else
              bind (convert_inputs env ioperands) (\<lambda>converted_inputs.
              bind (check_arrow subscripts) (\<lambda>_.
              bind (split_output env subscripts) (\<lambda>(input_subscripts, output_subscript).
              einsum_compute env converted_inputs input_subscripts output_subscript))))"

text \<open>Events by kind: conversions of operands, and the steps of a diagonal collapse.\<close>

fun is_conversion :: "'d \<Rightarrow> 'd event \<Rightarrow> bool" where
  "is_conversion d (EvAstype d') = (d' = d)"
| "is_conversion d (EvAsarray d') = (d' = d)"
| "is_conversion d _ = False"

fun is_collapse :: "'d event \<Rightarrow> bool" where
  "is_collapse (EvDiagonal _ _) = True"
| "is_collapse (EvRollaxis _ _) = True"
| "is_collapse _ = False"

fun is_diagonal :: "'d event \<Rightarrow> bool" where
  "is_diagonal (EvDiagonal _ _) = True"
| "is_diagonal _ = False"

text \<open>The event and the array that the conversion of one operand yields.\<close>

fun conversion_of :: "'d \<Rightarrow> ('d, 'a) operand \<Rightarrow> ('d event \<times> ('d, 'a) ndarray) option" where
  "conversion_of d (Ndarray a) = Some (EvAstype d, astype d a)"
| "conversion_of d (ArrayLike a) = Some (EvAsarray d, astype d a)"
| "conversion_of d (Str s) = None"

text \<open>
  What a computation can do: every logged event satisfies \<open>Q\<close> and every raised error
  is in \<open>E\<close>; and what it returns satisfies \<open>P\<close>.
\<close>

definition logs_only :: "('d event \<Rightarrow> bool) \<Rightarrow> error set \<Rightarrow> ('d, 'r) m \<Rightarrow> bool" where
  "logs_only Q E c \<longleftrightarrow> list_all Q (fst c) \<and> (\<forall>e. snd c = Inl e \<longrightarrow> e \<in> E)"

definition returns :: "('r \<Rightarrow> bool) \<Rightarrow> ('d, 'r) m \<Rightarrow> bool" where
  "returns P c \<longleftrightarrow> (\<forall>x. snd c = Inr x \<longrightarrow> P x)"

text \<open>The expression passes the checks that come before the conversion of the operands.\<close>

definition passes_char_checks :: "string \<Rightarrow> bool" where
  "passes_char_checks subscripts0 \<longleftrightarrow>
     CHR ''.'' \<notin> set subscripts0 \<and>
     list_all (\<lambda>c. c = CHR '' '' \<or> c \<in> set ascii_letters \<or> c \<in> set ''->,'') subscripts0"

subsection \<open>The matrix product, and an example environment\<close>

text \<open>The standard matrix product of a matrix of shape (m, n) and one of shape (n, p).\<close>

definition matmul :: "('d, 'a::comm_semiring_0) ndarray \<Rightarrow> ('d, 'a) ndarray \<Rightarrow> ('d, 'a) ndarray" where
  "matmul a b =
     \<lparr>dtype = dtype a,
      shape = [shape a ! 0, shape b ! 1],
      elem = (\<lambda>idx. \<Sum>j<shape a ! 1. elem a [idx ! 0, j] * elem b [j, idx ! 1])\<rparr>"

text \<open>
  A small environment to run the code in: three dtypes, promotion to the widest of
  them, sums of 32-bit integers accumulated in 64 bits, sets iterated in the order of
  \<open>remdups\<close>.
\<close>

datatype example_dtype = Int32 | Int64 | Float64

fun example_join :: "example_dtype \<Rightarrow> example_dtype \<Rightarrow> example_dtype" where
  "example_join Float64 _ = Float64"
| "example_join _ Float64 = Float64"
| "example_join Int64 _ = Int64"
| "example_join _ Int64 = Int64"
| "example_join Int32 Int32 = Int32"

fun operand_dtype :: "('d, 'a) operand \<Rightarrow> 'd option" where
  "operand_dtype (Str s) = None"
| "operand_dtype (Ndarray a) = Some (dtype a)"
| "operand_dtype (ArrayLike a) = Some (dtype a)"

fun example_promote :: "(example_dtype, 'a) operand list \<Rightarrow> example_dtype option" where
  "example_promote [] = None"
| "example_promote [x] = operand_dtype x"
| "example_promote (x # y # ys) =
     (case (operand_dtype x, example_promote (y # ys)) of
        (Some a, Some b) \<Rightarrow> Some (example_join a b)
      | _ \<Rightarrow> None)"

definition example_env :: "(example_dtype, int) env" where
  "example_env =
     \<lparr>promote = example_promote,
      mul_dtype = example_join,
      acc_dtype = (\<lambda>d. case d of Int32 \<Rightarrow> Int64 | Int64 \<Rightarrow> Int64 | Float64 \<Rightarrow> Float64),
      set_iter = remdups\<rparr>"

section \<open>Properties\<close>

subsection \<open>The log-and-error plumbing\<close>

lemma bind_ret [simp]: "bind (ret x) f = f x"
  by (simp add: bind_def ret_def split: prod.splits)

lemma bind_raise [simp]: "bind (raise e) f = raise e"
  by (simp add: bind_def raise_def)

lemma bind_Inr [simp]: "bind (ev, Inr x) f = (ev @ fst (f x), snd (f x))"
  by (simp add: bind_def split: prod.splits)

lemma bind_Inl [simp]: "bind (ev, Inl e) f = (ev, Inl e)"
  by (simp add: bind_def)

lemma bind_ret_right [simp]: "bind c ret = c"
  by (cases c) (auto simp: bind_def ret_def split: sum.splits)

lemma call_Inr [simp]: "call e (Inr x) = ([e], Inr x)"
  by (simp add: call_def)

lemma call_Inl [simp]: "call e (Inl err) = ([], Inl err)"
  by (simp add: call_def)

lemma ret_eq [simp]: "ret x = (ev, r) \<longleftrightarrow> ev = [] \<and> r = Inr x"
  by (auto simp: ret_def)

lemma raise_eq [simp]: "raise e = (ev, r) \<longleftrightarrow> ev = [] \<and> r = Inl e"
  by (auto simp: raise_def)

lemma fst_ret [simp]: "fst (ret x) = []" and snd_ret [simp]: "snd (ret x) = Inr x"
  by (simp_all add: ret_def)

lemma fst_raise [simp]: "fst (raise e) = []" and snd_raise [simp]: "snd (raise e) = Inl e"
  by (simp_all add: raise_def)

subsection \<open>The operand count\<close>

lemma example_iter_ok: "iter_ok example_env"
  by (simp add: iter_ok_def example_env_def)

text \<open>
  C6. The number of comma-separated input subscripts is compared with the number of
  operands, and the two messages are attached to the opposite cases: with the two
  subscripts of \<^verbatim>\<open>'ij,jk'\<close> and a single operand, \<open>einsum\<close> raises the error whose
  message says that more operands were provided than specified, although fewer were.
  (When type resolution fails, that error comes first.)
\<close>

theorem einsum_one_operand_two_subscripts:
  "einsum env [Str ''ij,jk'', Ndarray A] =
     (case promote env [Ndarray A] of
        None \<Rightarrow> ([], Inl ResultTypeError)
      | Some d \<Rightarrow> ([EvAstype d], Inl MoreOperandsError))"
  by (simp add: einsum_def einsum_compute_def ascii_letters_def convert_inputs_def
      numpy_result_type_def check_arrow_def str_find_def split_output_def implicit_output_def
      split: option.splits)

theorem einsum_one_operand_two_subscripts_witness:
  "einsum example_env [Str ''ij,jk'', Ndarray (mk_array Int32 [2, 2] [1, 2, 3, 4])] =
     ([EvAstype Int32], Inl MoreOperandsError)"
  using einsum_one_operand_two_subscripts
    [of example_env "mk_array Int32 [2, 2] [1, 2, 3, 4]"]
  by (simp add: example_env_def mk_array_def)

subsection \<open>The checks before the conversion\<close>

lemma irregular_chars_iff:
  "filter (\<lambda>c. c \<notin> set ascii_letters \<and> c \<notin> set ''->,'') (filter (\<lambda>c. c \<noteq> CHR '' '') s0) = []
   \<longleftrightarrow> list_all (\<lambda>c. c = CHR '' '' \<or> c \<in> set ascii_letters \<or> c \<in> set ''->,'') s0"
  by (induction s0) auto

lemma einsum_Str_valid:
  assumes "passes_char_checks s0"
  shows "einsum env (Str s0 # ioperands) =
     bind (convert_inputs env ioperands) (\<lambda>converted_inputs.
     bind (check_arrow (filter (\<lambda>c. c \<noteq> CHR '' '') s0)) (\<lambda>_.
     bind (split_output env (filter (\<lambda>c. c \<noteq> CHR '' '') s0))
       (\<lambda>(input_subscripts, output_subscript).
          einsum_compute env converted_inputs input_subscripts output_subscript)))"
  using assms irregular_chars_iff[of s0] unfolding passes_char_checks_def einsum_def
  by (simp add: Let_def del: list.set)

lemma einsum_Str_invalid:
  assumes "\<not> passes_char_checks s0"
  shows "\<exists>e. einsum env (Str s0 # ioperands) = ([], Inl e) \<and>
     (e = EllipsisError \<or> e = IndexError \<or> (\<exists>c. e = InvalidSubscriptError c))"
  using assms irregular_chars_iff[of s0] unfolding passes_char_checks_def einsum_def
  by (auto simp add: Let_def simp del: list.set split: list.splits)

lemma convert_inputs_Nil: "convert_inputs env [] = ([], Inl ResultTypeError)"
  by (simp add: convert_inputs_def numpy_result_type_def)

text \<open>
  C10, as amended. A call with a subscripts string and no operand raises before
  anything is logged, and what it raises is never one of the two operand-count
  errors; when the string passes the ellipsis and alphabet checks, it is the error of
  the common-type resolution. (A string that fails those checks raises their error
  first: the claim as stated does not hold for it.)
\<close>

theorem einsum_no_operands:
  "\<exists>e. einsum env [Str s0] = ([], Inl e) \<and> e \<noteq> FewerOperandsError \<and> e \<noteq> MoreOperandsError \<and>
     (passes_char_checks s0 \<longrightarrow> e = ResultTypeError)"
proof (cases "passes_char_checks s0")
  case True
  then show ?thesis
    by (simp add: einsum_Str_valid convert_inputs_Nil)
next
  case False
  from einsum_Str_invalid[OF this, of env "[]"] show ?thesis
    using False by auto
qed

theorem einsum_no_operands_witness:
  "passes_char_checks ''ij'' \<and> einsum example_env [Str ''ij''] = ([], Inl ResultTypeError)"
proof -
  have p: "passes_char_checks ''ij''"
    by (simp add: passes_char_checks_def ascii_letters_def)
  from einsum_no_operands[of example_env "''ij''"] p show ?thesis
    by auto
qed

theorem einsum_no_operands_ellipsis_counterexample:
  "einsum example_env [Str ''i.''] = ([], Inl EllipsisError)"
  by (simp add: einsum_def)

subsection \<open>The check of the arrow\<close>

lemma str_find_from_char:
  "i < length s \<Longrightarrow> s ! i = c \<Longrightarrow> (\<forall>j<i. s ! j \<noteq> c) \<Longrightarrow> str_find_from s [c] k = int (k + i)"
proof (induction s arbitrary: i k)
  case Nil
  then show ?case by simp
next
  case (Cons x xs)
  show ?case
  proof (cases i)
    case 0
    with Cons.prems show ?thesis by simp
  next
    case (Suc i')
    with Cons.prems have "x \<noteq> c" by auto
    moreover have "str_find_from xs [c] (Suc k) = int (Suc k + i')"
      using Cons.prems Suc by (intro Cons.IH) auto
    ultimately show ?thesis using Suc by simp
  qed
qed

lemma str_find_char_first:
  "i < length s \<Longrightarrow> s ! i = c \<Longrightarrow> (\<forall>j<i. s ! j \<noteq> c) \<Longrightarrow> str_find s [c] = int i"
  by (simp add: str_find_def str_find_from_char)

lemma check_arrow_malformed:
  assumes "i < length s" "s ! i = CHR ''-''" "\<forall>j<i. s ! j \<noteq> CHR ''-''"
    and "Suc i = length s \<or> s ! Suc i \<noteq> CHR ''>''"
  shows "check_arrow s = ([], Inl MalformedArrowError)"
proof -
  have "str_find s ''-'' = int i"
    using assms(1-3) by (rule str_find_char_first)
  then show ?thesis
    using assms(1,4) by (auto simp: check_arrow_def Let_def nat_add_distrib)
qed

text \<open>
  C5, as amended. Let the expression pass the ellipsis and alphabet checks and let the
  operands convert (type resolution and the conversions run before the arrow is
  looked at). If the first \<open>-\<close> of the stripped expression is its last character, or
  is not immediately followed by \<open>>\<close>, then \<open>einsum\<close> fails with the malformed-arrow
  error. Only the first \<open>-\<close> is examined: a later one is not reported by this check.
\<close>

theorem einsum_first_dash_malformed:
  fixes env :: "('d, 'a::comm_semiring_0) env"
  assumes "passes_char_checks s0" and "s = filter (\<lambda>c. c \<noteq> CHR '' '') s0"
    and "convert_inputs env ioperands = (ev, Inr converted_inputs)"
    and "i < length s" "s ! i = CHR ''-''" "\<forall>j<i. s ! j \<noteq> CHR ''-''"
    and "Suc i = length s \<or> s ! Suc i \<noteq> CHR ''>''"
  shows "einsum env (Str s0 # ioperands) = (ev, Inl MalformedArrowError)"
proof -
  have "check_arrow s = (([], Inl MalformedArrowError) :: ('d, unit) m)"
    using assms(4-7) by (rule check_arrow_malformed)
  then show ?thesis
    using assms(1,3) unfolding assms(2) by (simp add: einsum_Str_valid)
qed

theorem einsum_first_dash_malformed_witness:
  "einsum example_env [Str ''i - j'', Ndarray (mk_array Int32 [2] [1, 2])] =
     ([EvAstype Int32], Inl MalformedArrowError)"
proof -
  have 1: "passes_char_checks ''i - j''"
    by (simp add: passes_char_checks_def ascii_letters_def)
  have 2: "convert_inputs example_env [Ndarray (mk_array Int32 [2] [1, 2])] =
     ([EvAstype Int32], Inr [astype Int32 (mk_array Int32 [2] [1, 2])])"
    by (simp add: convert_inputs_def numpy_result_type_def example_env_def mk_array_def)
  show ?thesis
    using einsum_first_dash_malformed[OF 1 _ 2, of "''i-j''" 1] by simp
qed

theorem einsum_later_dash_counterexample:
  "einsum example_env [Str ''i->i-'', Ndarray (mk_array Int32 [2] [1, 2])] =
     ([EvAstype Int32], Inl (UnknownOutputLabelError CHR ''-''))"
  by (simp add: einsum_def einsum_compute_def ascii_letters_def convert_inputs_def
      numpy_result_type_def check_arrow_def str_find_def split_output_def example_env_def
      mk_array_def)

subsection \<open>What each stage logs and raises\<close>

lemma bind_eq_Inl:
  "bind c f = (ev, Inl e) \<longleftrightarrow>
     c = (ev, Inl e) \<or> (\<exists>ev1 x ev2. c = (ev1, Inr x) \<and> f x = (ev2, Inl e) \<and> ev = ev1 @ ev2)"
  by (cases c; cases "snd c") (auto simp: bind_def split: prod.splits)

lemma bind_eq_Inr:
  "bind c f = (ev, Inr y) \<longleftrightarrow>
     (\<exists>ev1 x ev2. c = (ev1, Inr x) \<and> f x = (ev2, Inr y) \<and> ev = ev1 @ ev2)"
  by (cases c; cases "snd c") (auto simp: bind_def split: prod.splits)

lemma logs_only_ret [simp]: "logs_only Q E (ret x)"
  by (simp add: logs_only_def)

lemma logs_only_raise [simp]: "logs_only Q E (raise e) \<longleftrightarrow> e \<in> E"
  by (simp add: logs_only_def)

lemma logs_only_bind:
  "logs_only Q E c \<Longrightarrow> (\<And>x. logs_only Q E (f x)) \<Longrightarrow> logs_only Q E (bind c f)"
  by (cases c; cases "snd c") (auto simp: logs_only_def)

lemma logs_only_call:
  "Q ev \<Longrightarrow> (\<And>err. r = Inl err \<Longrightarrow> err \<in> E) \<Longrightarrow> logs_only Q E (call ev r)"
  by (cases r) (auto simp: logs_only_def)

lemma logs_only_mono:
  "logs_only Q E c \<Longrightarrow> (\<And>x. Q x \<Longrightarrow> Q' x) \<Longrightarrow> E \<subseteq> E' \<Longrightarrow> logs_only Q' E' c"
  by (auto simp: logs_only_def list_all_iff)

lemma diagonal_error: "diagonal a i j = Inl e \<Longrightarrow> e = AxisError"
  by (auto simp: diagonal_def Let_def split: if_splits)

lemma ndarray_transpose_error: "ndarray_transpose a axes = Inl e \<Longrightarrow> e = AxisError"
  by (auto simp: ndarray_transpose_def Let_def split: if_splits)

lemma rollaxis_error: "rollaxis a i j = Inl e \<Longrightarrow> e = AxisError"
  by (auto simp: rollaxis_def Let_def dest: ndarray_transpose_error split: if_splits)

lemma ndarray_sum_error: "ndarray_sum acc a axes = Inl e \<Longrightarrow> e = AxisError"
  by (auto simp: ndarray_sum_def split: if_splits)

lemma logs_only_pair [simp]:
  "logs_only Q E (ev, r) \<longleftrightarrow> list_all Q ev \<and> (\<forall>e. r = Inl e \<longrightarrow> e \<in> E)"
  by (simp add: logs_only_def)

lemma logs_only_fst_snd:
  "logs_only Q E c \<longleftrightarrow> list_all Q (fst c) \<and> (\<forall>e. snd c = Inl e \<longrightarrow> e \<in> E)"
  by (simp add: logs_only_def)

lemma diag_loop_logs: "logs_only is_collapse {AxisError} (diag_loop first axes st)"
proof (induction axes arbitrary: st)
  case Nil
  show ?case by simp
next
  case (Cons axis axes)
  obtain result subscript where st: "st = (result, subscript)" by (cases st)
  show ?case unfolding st diag_loop.simps
    by (intro logs_only_bind logs_only_call Cons.IH) (auto dest: diagonal_error rollaxis_error)
qed

lemma label_loop_logs: "logs_only is_collapse {AxisError} (label_loop orig labels st)"
proof (induction labels arbitrary: st)
  case Nil
  show ?case by simp
next
  case (Cons label labels)
  obtain result subscript where st: "st = (result, subscript)" by (cases st)
  show ?case unfolding st label_loop.simps
    by (auto intro!: logs_only_bind Cons.IH diag_loop_logs split: list.splits)
qed

lemma SingleViewCalculator_logs:
  "logs_only is_collapse {AxisError} (SingleViewCalculator env a s)"
  by (simp add: SingleViewCalculator_def label_loop_logs)

lemma i_parsers_loop_logs:
  "logs_only is_collapse {e. e = AxisError \<or> e = IndexError \<or> e = TooFewSubscriptsError \<or>
       (\<exists>k. e = TooManySubscriptsError k)}
     (i_parsers_loop env i subs cs)"
proof (induction subs arbitrary: i cs)
  case Nil
  show ?case by simp
next
  case (Cons s subs)
  show ?case
  proof (cases cs)
    case Nil
    then show ?thesis by simp
  next
    case (Cons a rest)
    have 1: "logs_only is_collapse {e. e = AxisError \<or> e = IndexError \<or> e = TooFewSubscriptsError \<or>
       (\<exists>k. e = TooManySubscriptsError k)} (SingleViewCalculator env a s)"
      by (rule logs_only_mono[OF SingleViewCalculator_logs]) auto
    have 2: "logs_only is_collapse {e. e = AxisError \<or> e = IndexError \<or> e = TooFewSubscriptsError \<or>
       (\<exists>k. e = TooManySubscriptsError k)}
       (bind (SingleViewCalculator env a s) (\<lambda>calc.
          bind (i_parsers_loop env (Suc i) subs rest) (\<lambda>calcs. ret (calc # calcs))))"
      by (intro logs_only_bind 1 Cons.IH logs_only_ret)
    show ?thesis unfolding Cons i_parsers_loop.simps list.case
      using 2 by simp
  qed
qed

lemma tensordot_loop_logs: "logs_only (\<lambda>e. e = EvTensordot) {} (tensordot_loop env r rest)"
proof (induction rest arbitrary: r)
  case Nil
  show ?case by simp
next
  case (Cons a rest)
  show ?case unfolding tensordot_loop.simps
    by (intro logs_only_bind logs_only_call Cons.IH) auto
qed

lemma CombinedViewCalculator_logs:
  "logs_only (\<lambda>e. e = EvTensordot) {IndexError} (CombinedViewCalculator env as subs)"
proof (cases as)
  case Nil
  then show ?thesis by (simp add: CombinedViewCalculator_def)
next
  case (Cons a rest)
  show ?thesis unfolding Cons CombinedViewCalculator_def list.case
    by (intro logs_only_bind logs_only_mono[OF tensordot_loop_logs]) auto
qed

lemma SummedViewCalculator_logs:
  "logs_only (\<lambda>e. True) {AxisError} (SummedViewCalculator env a i out)"
  unfolding SummedViewCalculator_def Let_def
  by (intro logs_only_bind logs_only_call | auto dest: ndarray_sum_error simp del: bind_Inr call_Inr)+

lemma TransposedViewCalculator_logs:
  "logs_only (\<lambda>e. True) {AxisError, AssertionError} (TransposedViewCalculator a i out)"
  unfolding TransposedViewCalculator_def Let_def
  by (auto intro!: logs_only_call dest: ndarray_transpose_error simp del: call_Inr)


lemma convert_loop_result:
  "convert_loop d ops = (ev, r) \<Longrightarrow>
     list_all (is_conversion d) ev \<and>
     (\<forall>cs. r = Inr cs \<longrightarrow> length cs = length ops \<and> length ev = length ops \<and>
        list_all (\<lambda>c. dtype c = d) cs) \<and>
     (\<forall>e. r = Inl e \<longrightarrow> e = ConversionError)"
proof (induction ops arbitrary: ev r)
  case Nil
  then show ?case by auto
next
  case (Cons a ops)
  obtain ev' r' where rest: "convert_loop d ops = (ev', r')"
    by (cases "convert_loop d ops")
  from Cons.IH[OF rest] Cons.prems rest show ?case
    by (cases a; cases r') (auto simp: astype_def)
qed

lemma convert_inputs_Inr:
  assumes "convert_inputs env ops = (ev, Inr cs)"
  shows "\<exists>d. numpy_result_type env ops = Inr d \<and> list_all (is_conversion d) ev \<and>
     length ev = length ops \<and> length cs = length ops \<and> list_all (\<lambda>c. dtype c = d) cs \<and>
     ops \<noteq> []"
proof (cases "numpy_result_type env ops")
  case (Inl e)
  with assms show ?thesis by (simp add: convert_inputs_def)
next
  case (Inr d)
  with assms have "convert_loop d ops = (ev, Inr cs)"
    by (simp add: convert_inputs_def)
  from convert_loop_result[OF this] Inr show ?thesis
    by (auto simp: numpy_result_type_def split: if_splits)
qed

lemma convert_inputs_Inl:
  assumes "convert_inputs env ops = (ev, Inl e)"
  shows "e = ResultTypeError \<or> e = ConversionError"
proof (cases "numpy_result_type env ops")
  case (Inl e')
  with assms show ?thesis
    by (auto simp: convert_inputs_def numpy_result_type_def split: if_splits option.splits)
next
  case (Inr d)
  with assms have "convert_loop d ops = (ev, Inl e)"
    by (simp add: convert_inputs_def)
  from convert_loop_result[OF this] show ?thesis by simp
qed

lemma check_arrow_cases:
  "check_arrow s = ([], Inr ()) \<or> check_arrow s = ([], Inl MalformedArrowError)"
  by (auto simp: check_arrow_def Let_def)

lemma split_output_cases:
  "\<exists>r. split_output env s = ([], r) \<and>
     (\<forall>e. r = Inl e \<longrightarrow> e = IndexError \<or> (\<exists>c. e = UnknownOutputLabelError c) \<or>
        (\<exists>c. e = RepeatedOutputLabelError c))"
  by (auto simp: split_output_def Let_def split: list.splits)

lemma pipeline_logs:
  "logs_only (\<lambda>e. True) {AxisError, IndexError, AssertionError}
     (bind (if 2 \<le> length cs then
              bind (CombinedViewCalculator env (map fst ps) (map snd ps))
                (\<lambda>(result, subscript). SingleViewCalculator env result subscript)
            else (case ps of [] \<Rightarrow> raise IndexError | calc # _ \<Rightarrow> ret calc))
        (\<lambda>(result, subscript).
           bind (SummedViewCalculator env result subscript out)
             (\<lambda>(result, subscript). TransposedViewCalculator result subscript out)))"
proof -
  have 1: "logs_only (\<lambda>e. True) {AxisError, IndexError, AssertionError}
     (CombinedViewCalculator env (map fst ps) (map snd ps))"
    by (rule logs_only_mono[OF CombinedViewCalculator_logs]) auto
  have 2: "\<And>a s. logs_only (\<lambda>e. True) {AxisError, IndexError, AssertionError}
     (SingleViewCalculator env a s)"
    by (rule logs_only_mono[OF SingleViewCalculator_logs]) auto
  have 3: "\<And>a s. logs_only (\<lambda>e. True) {AxisError, IndexError, AssertionError}
     (SummedViewCalculator env a s out)"
    by (rule logs_only_mono[OF SummedViewCalculator_logs]) auto
  have 4: "\<And>a s. logs_only (\<lambda>e. True) {AxisError, IndexError, AssertionError}
     (TransposedViewCalculator a s out)"
    by (rule logs_only_mono[OF TransposedViewCalculator_logs]) auto
  have 5: "logs_only (\<lambda>e. True) {AxisError, IndexError, AssertionError}
     (if 2 \<le> length cs then
              bind (CombinedViewCalculator env (map fst ps) (map snd ps))
                (\<lambda>(result, subscript). SingleViewCalculator env result subscript)
            else (case ps of [] \<Rightarrow> raise IndexError | calc # _ \<Rightarrow> ret calc))"
    using 1 2 by (auto intro!: logs_only_bind split: list.splits prod.splits)
  show ?thesis
    by (rule logs_only_bind[OF 5]) (auto intro!: logs_only_bind 3 4 split: prod.splits)
qed

lemma einsum_compute_Inl:
  assumes "einsum_compute env cs inp out = (ev, Inl e)"
  shows "(e = FewerOperandsError \<or> e = MoreOperandsError \<longrightarrow> ev = []) \<and>
     ((\<exists>k. e = TooManySubscriptsError k) \<or> e = TooFewSubscriptsError \<longrightarrow> list_all is_collapse ev) \<and>
     e \<noteq> MalformedArrowError \<and> (\<forall>c. e \<noteq> UnknownOutputLabelError c) \<and>
     (\<forall>c. e \<noteq> RepeatedOutputLabelError c) \<and>
     e \<noteq> UsageError \<and> e \<noteq> SubscriptsTypeError \<and> e \<noteq> EllipsisError \<and>
     (\<forall>c. e \<noteq> InvalidSubscriptError c)"
proof -
  let ?subs = "split_comma inp"
  consider "length ?subs < length cs" | "length ?subs > length cs" | "length ?subs = length cs"
    by linarith
  then show ?thesis
  proof cases
    case 1
    with assms show ?thesis by (simp add: einsum_compute_def)
  next
    case 2
    with assms show ?thesis by (simp add: einsum_compute_def)
  next
    case 3
    let ?rest = "\<lambda>ps. bind (if 2 \<le> length cs then
              bind (CombinedViewCalculator env (map fst ps) (map snd ps))
                (\<lambda>(result, subscript). SingleViewCalculator env result subscript)
            else (case ps of [] \<Rightarrow> raise IndexError | calc # _ \<Rightarrow> ret calc))
        (\<lambda>(result, subscript).
           bind (SummedViewCalculator env result subscript out)
             (\<lambda>(result, subscript). TransposedViewCalculator result subscript out))"
    from assms 3 have "bind (i_parsers_loop env 0 ?subs cs) ?rest = (ev, Inl e)"
      by (simp add: einsum_compute_def)
    then consider "i_parsers_loop env 0 ?subs cs = (ev, Inl e)"
      | ps ev2 where "?rest ps = (ev2, Inl e)"
      unfolding bind_eq_Inl by blast
    then show ?thesis
    proof cases
      case 1
      with i_parsers_loop_logs[of env 0 ?subs cs] show ?thesis by auto
    next
      case 2
      with pipeline_logs[of cs env ps out] show ?thesis by auto
    qed
  qed
qed

lemma einsum_error_log:
  fixes env :: "('d, 'a::comm_semiring_0) env"
  assumes "einsum env operands = (ev, Inl e)"
  shows "(e = MalformedArrowError \<or> (\<exists>c. e = UnknownOutputLabelError c) \<or>
          (\<exists>c. e = RepeatedOutputLabelError c) \<or> e = FewerOperandsError \<or> e = MoreOperandsError
          \<longrightarrow> (\<exists>cs. convert_inputs env (tl operands) = (ev, Inr cs)) \<and>
              length ev = length (tl operands) \<and> ev \<noteq> []) \<and>
         ((\<exists>k. e = TooManySubscriptsError k) \<or> e = TooFewSubscriptsError
          \<longrightarrow> (\<exists>evc cs ev'. convert_inputs env (tl operands) = (evc, Inr cs) \<and>
                ev = evc @ ev' \<and> evc \<noteq> [] \<and> list_all is_collapse ev')) \<and>
         (e = UsageError \<or> e = SubscriptsTypeError \<or> e = EllipsisError \<or>
          (\<exists>c. e = InvalidSubscriptError c) \<longrightarrow> ev = [])"
proof (cases operands)
  case Nil
  with assms show ?thesis by (simp add: einsum_def)
next
  case (Cons x ioperands)
  show ?thesis
  proof (cases x)
    case (Ndarray a)
    with assms Cons show ?thesis by (simp add: einsum_def)
  next
    case (ArrayLike a)
    with assms Cons show ?thesis by (simp add: einsum_def)
  next
    case (Str s0)
    show ?thesis
    proof (cases "passes_char_checks s0")
      case False
      from einsum_Str_invalid[OF this, of env ioperands] assms Cons Str show ?thesis
        by auto
    next
      case True
      let ?s = "filter (\<lambda>c. c \<noteq> CHR '' '') s0"
      let ?after = "\<lambda>cs. bind (check_arrow ?s) (\<lambda>_.
         bind (split_output env ?s) (\<lambda>(inp, out). einsum_compute env cs inp out))"
      from assms Cons Str True
      have *: "bind (convert_inputs env ioperands) ?after = (ev, Inl e)"
        by (simp add: einsum_Str_valid)
      then consider "convert_inputs env ioperands = (ev, Inl e)"
        | evc cs ev' where "convert_inputs env ioperands = (evc, Inr cs)"
            "?after cs = (ev', Inl e)" "ev = evc @ ev'"
        unfolding bind_eq_Inl by blast
      then show ?thesis
      proof cases
        case 1
        from convert_inputs_Inl[OF this] show ?thesis by auto
      next
        case 2
        from convert_inputs_Inr[OF 2(1)] have len: "length evc = length ioperands" "evc \<noteq> []"
          by auto
        have "check_arrow ?s = (([], Inr ()) :: ('d, unit) m) \<or>
              check_arrow ?s = (([], Inl MalformedArrowError) :: ('d, unit) m)"
          by (rule check_arrow_cases)
        then show ?thesis
        proof
          assume "check_arrow ?s = (([], Inl MalformedArrowError) :: ('d, unit) m)"
          with 2 len Cons show ?thesis by auto
        next
          assume ca: "check_arrow ?s = (([], Inr ()) :: ('d, unit) m)"
          obtain r where so: "split_output env ?s = ([], r)"
            and r: "\<forall>e. r = Inl e \<longrightarrow> e = IndexError \<or> (\<exists>c. e = UnknownOutputLabelError c) \<or>
               (\<exists>c. e = RepeatedOutputLabelError c)"
            using split_output_cases[of env ?s] by blast
          show ?thesis
          proof (cases r)
            case (Inl e')
            with 2 ca so r len Cons show ?thesis by auto
          next
            case (Inr io)
            obtain inp out where io: "io = (inp, out)" by (cases io)
            from 2(2) ca so Inr io have "einsum_compute env cs inp out = (ev', Inl e)"
              by simp
            from einsum_compute_Inl[OF this] 2 len Cons show ?thesis
              by auto
          qed
        qed
      qed
    qed
  qed
qed

text \<open>The definitions that a run of \<open>einsum\<close> on concrete arguments unfolds.\<close>

lemmas run_defs =
  einsum_def einsum_compute_def ascii_letters_def convert_inputs_def numpy_result_type_def
  check_arrow_def str_find_def split_output_def SingleViewCalculator_def
  SummedViewCalculator_def TransposedViewCalculator_def CombinedViewCalculator_def
  positions_def diagonal_def rollaxis_def ndarray_transpose_def ndarray_sum_def
  tensordot_def ndim_def astype_def insert_at_def delete_at_def Let_def

subsection \<open>TransposedViewCalculator\<close>

lemma first_index_less: "c \<in> set s \<Longrightarrow> first_index s c < length s"
  by (induction s) auto

lemma nth_first_index: "c \<in> set s \<Longrightarrow> s ! first_index s c = c"
  by (induction s) auto

lemma first_index_nth: "distinct s \<Longrightarrow> j < length s \<Longrightarrow> first_index s (s ! j) = j"
proof (induction s arbitrary: j)
  case Nil
  then show ?case by simp
next
  case (Cons x xs)
  then show ?case by (cases j) auto
qed

lemma first_index_map_inj:
  "inj_on f (insert x (set xs)) \<Longrightarrow> first_index (map f xs) (f x) = first_index xs x"
proof (induction xs)
  case Nil
  show ?case by simp
next
  case (Cons y ys)
  then have "inj_on f (insert x (set ys))"
    by (auto intro: inj_on_subset)
  with Cons show ?case by (auto simp: inj_on_def)
qed

lemma inj_on_first_index: "inj_on (first_index s) (set s)"
  by (rule inj_on_inverseI[where g = "\<lambda>k. s ! k"]) (simp add: nth_first_index)

lemma str_find_from_in: "c \<in> set s \<Longrightarrow> str_find_from s [c] k = int (k + first_index s c)"
  by (induction s arbitrary: k) auto

lemma str_find_in: "c \<in> set s \<Longrightarrow> str_find s [c] = int (first_index s c)"
  by (simp add: str_find_def str_find_from_in)

lemma transpose_orders_eq:
  "set out \<subseteq> set inp \<Longrightarrow>
   map (\<lambda>label. str_find inp [label]) out = map (\<lambda>l. int (first_index inp l)) out"
  by (auto simp: str_find_in)

lemma sorted_distinct_upt:
  fixes xs :: "nat list"
  assumes "sorted xs" "distinct xs" "\<forall>x \<in> set xs. x < length xs"
  shows "xs = [0..<length xs]"
proof -
  have "set xs \<subseteq> {0..<length xs}" using assms(3) by auto
  moreover have "card (set xs) = card {0..<length xs}"
    using assms(2) by (simp add: distinct_card)
  ultimately have "set xs = {0..<length xs}"
    by (intro card_subset_eq) auto
  then show ?thesis
    using assms(1,2) by (intro sorted_distinct_set_unique) auto
qed

lemma distinct_same_set:
  assumes "distinct inp" "length inp = length out" "set inp = set out"
  shows "distinct out"
proof -
  have "card (set out) = length out"
    using assms by (metis distinct_card)
  then show ?thesis by (rule card_distinct)
qed


lemma TransposedViewCalculator_unfold:
  assumes "length inp = length out" "set inp = set out"
  shows "TransposedViewCalculator a inp out =
     (let orders = map (\<lambda>l. int (first_index inp l)) out in
      if sorted orders then ret a else call (EvTranspose orders) (ndarray_transpose a orders))"
proof -
  have "set out \<subseteq> set inp" using assms(2) by simp
  note eq = transpose_orders_eq[OF this]
  have "\<And>xs :: int list. xs = sort xs \<longleftrightarrow> sorted xs"
    by (metis sorted_sort sorted_sort_id)
  then show ?thesis
    using assms by (simp add: TransposedViewCalculator_def eq Let_def)
qed

lemma sorted_map_int: "sorted (map int xs) \<longleftrightarrow> sorted xs"
  by (induction xs) auto

lemma norm_orders:
  assumes "set out \<subseteq> set inp" "n = length inp"
  shows "map (\<lambda>ax. nat (ax mod int n)) (map (\<lambda>l. int (first_index inp l)) out) =
     map (first_index inp) out"
proof -
  have "\<And>l. l \<in> set out \<Longrightarrow> nat (int (first_index inp l) mod int n) = first_index inp l"
    using assms first_index_less[of _ inp] by (auto simp: nat_mod_distrib simp flip: zmod_int)
  then show ?thesis by simp
qed

lemma first_index_map_self:
  "distinct inp \<Longrightarrow> map (first_index inp) inp = [0..<length inp]"
  by (intro nth_equalityI) (auto simp: first_index_nth)

lemma TransposedViewCalculator_same:
  assumes "distinct inp"
  shows "TransposedViewCalculator a inp inp = ([], Inr a)"
proof -
  have "sorted (map int (map (first_index inp) inp))"
    unfolding sorted_map_int first_index_map_self[OF assms] by simp
  then have "sorted (map (\<lambda>l. int (first_index inp l)) inp)"
    by (simp add: comp_def)
  then show ?thesis
    by (simp add: TransposedViewCalculator_unfold)
qed

lemma sorted_orders_same:
  assumes len: "length inp = length out" and set: "set inp = set out"
    and dist: "distinct inp"
    and srt: "sorted (map (\<lambda>l. int (first_index inp l)) out)"
  shows "out = inp"
proof -
  let ?norm = "map (first_index inp) out"
  have dout: "distinct out" using dist len set by (rule distinct_same_set)
  have dnorm: "distinct ?norm"
    using dout inj_on_first_index[of inp] unfolding set by (simp add: distinct_map)
  have sub: "set out \<subseteq> set inp"
    unfolding set by (rule subset_refl)
  have bound: "\<forall>x \<in> set ?norm. x < length ?norm"
    using first_index_less[of _ inp] sub len by auto
  have "sorted (map int ?norm)"
    using srt by (simp add: comp_def)
  then have "sorted ?norm"
    unfolding sorted_map_int .
  from sorted_distinct_upt[OF this dnorm bound] have upt: "?norm = [0..<length out]"
    by simp
  show ?thesis
  proof (rule nth_equalityI)
    show "length out = length inp" using len by simp
  next
    fix k assume k: "k < length out"
    have "?norm ! k = [0..<length out] ! k"
      using upt by simp
    then have "first_index inp (out ! k) = k"
      using k by simp
    moreover have "out ! k \<in> set inp" using k sub by auto
    ultimately show "out ! k = inp ! k"
      using nth_first_index[of "out ! k" inp] by simp
  qed
qed

lemma first_index_norm:
  assumes set: "set inp = set out" and dist: "distinct inp" and j: "j < length inp"
  shows "first_index (map (first_index inp) out) j = first_index out (inp ! j)"
proof -
  have "inp ! j \<in> set inp"
    using j by (rule nth_mem)
  then have "insert (inp ! j) (set out) = set inp"
    unfolding set by (rule insert_absorb)
  then have "inj_on (first_index inp) (insert (inp ! j) (set out))"
    using inj_on_first_index[of inp] by (rule ssubst)
  then have "first_index (map (first_index inp) out) (first_index inp (inp ! j)) =
      first_index out (inp ! j)"
    by (rule first_index_map_inj)
  then show ?thesis
    unfolding first_index_nth[OF dist j] .
qed

lemma ndarray_transpose_orders:
  assumes len: "length inp = length out" and set: "set inp = set out"
    and dist: "distinct inp" and nd: "ndim a = length inp"
  shows "ndarray_transpose a (map (\<lambda>l. int (first_index inp l)) out) =
     Inr \<lparr>dtype = dtype a,
          shape = map (\<lambda>l. shape a ! first_index inp l) out,
          elem = (\<lambda>idx. elem a (map (\<lambda>j. idx ! first_index out (inp ! j)) [0..<length inp]))\<rparr>"
proof -
  let ?norm = "map (first_index inp) out"
  have sub: "set out \<subseteq> set inp" using set by simp
  have dout: "distinct out" using dist len set by (rule distinct_same_set)
  have dnorm: "distinct ?norm"
    using dout inj_on_first_index[of inp] unfolding set by (simp add: distinct_map)
  have rng: "\<forall>ax\<in>set (map (\<lambda>l. int (first_index inp l)) out).
      - int (length inp) \<le> ax \<and> ax < int (length inp)"
    using first_index_less[of _ inp] sub by auto
  have meq: "\<And>idx. map (\<lambda>j. idx ! first_index ?norm j) [0..<length inp] =
      map (\<lambda>j. idx ! first_index out (inp ! j)) [0..<length inp]"
    using first_index_norm[OF set dist] by simp
  have sh: "map (\<lambda>ax. shape a ! ax) ?norm = map (\<lambda>l. shape a ! first_index inp l) out"
    by simp
  show ?thesis
    unfolding ndarray_transpose_def Let_def nd norm_orders[OF sub refl] meq sh
    using len dnorm rng by simp
qed

lemma TransposedViewCalculator_permute:
  assumes len: "length inp = length out" and set: "set inp = set out"
    and dist: "distinct inp" and nd: "ndim a = length inp" and ne: "out \<noteq> inp"
  shows "TransposedViewCalculator a inp out =
     ([EvTranspose (map (\<lambda>l. int (first_index inp l)) out)],
      Inr \<lparr>dtype = dtype a,
           shape = map (\<lambda>l. shape a ! first_index inp l) out,
           elem = (\<lambda>idx. elem a (map (\<lambda>j. idx ! first_index out (inp ! j)) [0..<length inp]))\<rparr>)"
proof -
  have "\<not> sorted (map (\<lambda>l. int (first_index inp l)) out)"
    using sorted_orders_same[OF len set dist] ne by blast
  then show ?thesis
    unfolding TransposedViewCalculator_unfold[OF len set] Let_def
      ndarray_transpose_orders[OF len set dist nd]
    by simp
qed

lemma sorted_sort_iff: "(xs :: int list) = sort xs \<longleftrightarrow> sorted xs"
  by (metis sorted_sort sorted_sort_id)

lemma TransposedViewCalculator_asserted:
  assumes "length inp = length out" "set inp = set out"
  shows "TransposedViewCalculator a inp out =
     (if sorted (map (\<lambda>label. str_find inp [label]) out) then ret a
      else call (EvTranspose (map (\<lambda>label. str_find inp [label]) out))
             (ndarray_transpose a (map (\<lambda>label. str_find inp [label]) out)))"
  unfolding TransposedViewCalculator_def Let_def sorted_sort_iff
  using assms by simp

text \<open>
  C9. For every input that passes the calculator's two assertions (subscripts of the
  same length with the same labels): when the list of the positions of the output
  labels in the input subscript is ascending, the calculator returns the input array
  itself and logs no operation; otherwise its result is that of one call of
  \<open>transpose\<close> with that position list. For an input subscript without repeated
  labels, as \<open>einsum\<close> passes it, the position list is ascending exactly when the two
  subscripts are identical, and for different subscripts the transposition succeeds:
  axis \<open>k\<close> of the result is the axis of the input that carries the \<open>k\<close>-th output
  label.
\<close>

theorem TransposedViewCalculator_noop_or_permute:
  assumes "length inp = length out" and "set inp = set out"
  shows "(sorted (map (\<lambda>label. str_find inp [label]) out) \<longrightarrow>
        TransposedViewCalculator a inp out = ([], Inr a)) \<and>
     (\<not> sorted (map (\<lambda>label. str_find inp [label]) out) \<longrightarrow>
        TransposedViewCalculator a inp out =
          call (EvTranspose (map (\<lambda>label. str_find inp [label]) out))
            (ndarray_transpose a (map (\<lambda>label. str_find inp [label]) out))) \<and>
     (distinct inp \<longrightarrow>
        (out = inp \<longleftrightarrow> sorted (map (\<lambda>label. str_find inp [label]) out))) \<and>
     (distinct inp \<and> ndim a = length inp \<and> out \<noteq> inp \<longrightarrow>
        TransposedViewCalculator a inp out =
          ([EvTranspose (map (\<lambda>label. str_find inp [label]) out)],
           Inr \<lparr>dtype = dtype a,
                shape = map (\<lambda>l. shape a ! first_index inp l) out,
                elem = (\<lambda>idx. elem a
                  (map (\<lambda>j. idx ! first_index out (inp ! j)) [0..<length inp]))\<rparr>))"
proof -
  let ?orders = "map (\<lambda>label. str_find inp [label]) out"
  have sub: "set out \<subseteq> set inp"
    unfolding assms(2) by (rule subset_refl)
  have eq: "?orders = map (\<lambda>l. int (first_index inp l)) out"
    using sub by (rule transpose_orders_eq)
  have 1: "sorted ?orders \<longrightarrow> TransposedViewCalculator a inp out = ([], Inr a)"
    by (simp add: TransposedViewCalculator_asserted[OF assms])
  have 2: "\<not> sorted ?orders \<longrightarrow> TransposedViewCalculator a inp out =
      call (EvTranspose ?orders) (ndarray_transpose a ?orders)"
    by (simp add: TransposedViewCalculator_asserted[OF assms])
  have 3: "distinct inp \<longrightarrow> (out = inp \<longleftrightarrow> sorted ?orders)"
  proof (intro impI iffI)
    assume d: "distinct inp" and "out = inp"
    have "sorted (map int (map (first_index inp) inp))"
      unfolding sorted_map_int first_index_map_self[OF d] by simp
    then have "sorted (map (\<lambda>l. int (first_index inp l)) inp)"
      by (simp add: comp_def)
    then show "sorted ?orders"
      unfolding eq using \<open>out = inp\<close> by simp
  next
    assume d: "distinct inp" and "sorted ?orders"
    then have "sorted (map (\<lambda>l. int (first_index inp l)) out)"
      unfolding eq by simp
    with assms d show "out = inp"
      by (rule sorted_orders_same)
  qed
  have 4: "distinct inp \<and> ndim a = length inp \<and> out \<noteq> inp \<longrightarrow>
        TransposedViewCalculator a inp out =
          ([EvTranspose ?orders],
           Inr \<lparr>dtype = dtype a,
                shape = map (\<lambda>l. shape a ! first_index inp l) out,
                elem = (\<lambda>idx. elem a
                  (map (\<lambda>j. idx ! first_index out (inp ! j)) [0..<length inp]))\<rparr>)"
    unfolding eq using TransposedViewCalculator_permute[OF assms] by blast
  from 1 2 3 4 show ?thesis by blast
qed

theorem TransposedViewCalculator_noop_or_permute_witness:
  "TransposedViewCalculator (mk_array Int32 [2, 3] [1, 2, 3, 4, 5, 6 :: int]) ''ab'' ''ab'' =
     ([], Inr (mk_array Int32 [2, 3] [1, 2, 3, 4, 5, 6])) \<and>
   (\<exists>R. TransposedViewCalculator (mk_array Int32 [2, 3] [1, 2, 3, 4, 5, 6 :: int]) ''ab'' ''ba'' =
       ([EvTranspose [1, 0]], Inr R) \<and> dtype R = Int32 \<and> shape R = [3, 2] \<and>
       to_list R = [1, 4, 2, 5, 3, 6])"
proof -
  let ?a = "mk_array Int32 [2, 3] [1, 2, 3, 4, 5, 6 :: int]"
  have nd: "ndim ?a = length ''ab''"
    by (simp add: ndim_def mk_array_def)
  have o1: "map (\<lambda>label. str_find ''ab'' [label]) ''ab'' = [0, 1]"
    and o2: "map (\<lambda>label. str_find ''ab'' [label]) ''ba'' = [1, 0]"
    by (simp_all add: str_find_def)
  have 1: "TransposedViewCalculator ?a ''ab'' ''ab'' = ([], Inr ?a)"
    using TransposedViewCalculator_noop_or_permute[of "''ab''" "''ab''" ?a] unfolding o1 by simp
  have 2: "TransposedViewCalculator ?a ''ab'' ''ba'' =
        ([EvTranspose [1, 0]],
         Inr \<lparr>dtype = dtype ?a,
              shape = map (\<lambda>l. shape ?a ! first_index ''ab'' l) ''ba'',
              elem = (\<lambda>idx. elem ?a
                (map (\<lambda>j. idx ! first_index ''ba'' (''ab'' ! j)) [0..<length ''ab'']))\<rparr>)"
    using TransposedViewCalculator_noop_or_permute[of "''ab''" "''ba''" ?a] nd unfolding o2 by auto
  show ?thesis
    unfolding 2 using 1 by (simp add: mk_array_def to_list_def upt_rec)
qed

subsection \<open>SingleViewCalculator\<close>

lemma delete_at_length: "i < length xs \<Longrightarrow> length (delete_at i xs) = length xs - 1"
  by (simp add: delete_at_def)

lemma diagonal_ok:
  assumes "axis1 < ndim a" "axis2 < ndim a" "axis1 \<noteq> axis2"
  shows "\<exists>r. diagonal a axis1 axis2 = Inr r \<and> ndim r = ndim a - 1 \<and> dtype r = dtype a"
proof -
  let ?lo = "min axis1 axis2" and ?hi = "max axis1 axis2"
  have hi: "?hi < length (shape a)" using assms by (simp add: ndim_def)
  have lo: "?lo < length (delete_at ?hi (shape a))"
    using assms hi by (simp add: delete_at_length ndim_def)
  have "length (delete_at ?lo (delete_at ?hi (shape a))) = length (shape a) - 2"
    using lo hi by (simp add: delete_at_length)
  moreover have "2 \<le> length (shape a)" using assms by (simp add: ndim_def)
  ultimately show ?thesis
    using assms by (simp add: diagonal_def Let_def ndim_def)
qed

lemma roll_axes_eq:
  assumes "first < n"
  shows "insert_at first (int n) (delete_at n (map int [0..<Suc n])) =
     map int ([0..<first] @ n # [first..<n])"
proof -
  have "delete_at n (map int [0..<Suc n]) = map int [0..<n]"
    by (simp add: delete_at_def)
  moreover have "take first [0..<n] = [0..<first]" "drop first [0..<n] = [first..<n]"
    using assms by (simp_all add: take_upt)
  ultimately show ?thesis
    by (simp add: insert_at_def take_map drop_map)
qed

lemma ndarray_transpose_nat:
  assumes "length L = ndim a" "distinct L" "\<forall>x \<in> set L. x < ndim a"
  shows "ndarray_transpose a (map int L) =
     Inr \<lparr>dtype = dtype a, shape = map (\<lambda>ax. shape a ! ax) L,
          elem = (\<lambda>idx. elem a (map (\<lambda>j. idx ! first_index L j) [0..<ndim a]))\<rparr>"
proof -
  have "map (\<lambda>ax. nat (ax mod int (ndim a))) (map int L) = L"
    using assms(3) by (intro nth_equalityI) (auto simp: nat_mod_distrib simp flip: zmod_int)
  moreover have "\<forall>ax \<in> set (map int L). - int (ndim a) \<le> ax \<and> ax < int (ndim a)"
    using assms(3) by auto
  ultimately show ?thesis
    unfolding ndarray_transpose_def Let_def using assms(1,2) by simp
qed

lemma rollaxis_last:
  assumes "first < ndim a"
  shows "rollaxis a (- 1) (int first) =
     (if Suc first = ndim a then Inr a
      else ndarray_transpose a (map int ([0..<first] @ (ndim a - 1) # [first..<ndim a - 1])))"
proof -
  obtain n where n: "ndim a = Suc n" using assms by (cases "ndim a") auto
  have "first < n \<Longrightarrow> insert_at first (int n) (delete_at n (map int [0..<Suc n])) =
     map int ([0..<first] @ n # [first..<n])"
    by (rule roll_axes_eq)
  then show ?thesis
    using assms n unfolding rollaxis_def Let_def by (auto simp: nat_add_distrib)
qed

lemma rollaxis_last_ok:
  assumes "first < ndim a"
  shows "\<exists>r. rollaxis a (- 1) (int first) = Inr r \<and> ndim r = ndim a \<and> dtype r = dtype a"
proof (cases "Suc first = ndim a")
  case True
  then show ?thesis using assms by (simp add: rollaxis_last)
next
  case False
  let ?L = "[0..<first] @ (ndim a - 1) # [first..<ndim a - 1]"
  have "length ?L = ndim a" "distinct ?L" "\<forall>x \<in> set ?L. x < ndim a"
    using assms False by auto
  from ndarray_transpose_nat[OF this] show ?thesis
    using assms False by (simp add: rollaxis_last ndim_def)
qed


lemma positions_sorted: "sorted_wrt (<) (positions l s)"
  unfolding positions_def by (rule sorted_wrt_filter) (simp add: sorted_wrt_upt)

lemma positions_set: "set (positions l s) = {i. i < length s \<and> s ! i = l}"
  by (auto simp: positions_def)

lemma positions_length: "length (positions l s) = count_list s l"
proof (induction s rule: rev_induct)
  case Nil
  show ?case by (simp add: positions_def)
next
  case (snoc x xs)
  have "filter (\<lambda>i. (xs @ [x]) ! i = l) [0..<length xs] = filter (\<lambda>i. xs ! i = l) [0..<length xs]"
    by (rule filter_cong) (auto simp: nth_append)
  then show ?case
    using snoc by (simp add: positions_def)
qed

text \<open>Deleting the characters at a descending list of positions.\<close>

lemma count_delete_at:
  assumes "a < length s"
  shows "count_list (take a s @ drop (a + 1) s) c =
     (if c = s ! a then count_list s c - 1 else count_list s c)"
proof -
  have "s = take a s @ s ! a # drop (Suc a) s"
    using assms by (rule id_take_nth_drop)
  then have "count_list s c = count_list (take a s @ s ! a # drop (Suc a) s) c"
    by simp
  then show ?thesis by auto
qed

lemma distinct_count_le1: "(\<And>c. count_list s c \<le> 1) \<Longrightarrow> distinct s"
proof (induction s)
  case Nil
  show ?case by simp
next
  case (Cons x xs)
  have "count_list xs x = 0"
    using Cons.prems[of x] by simp
  then have "x \<notin> set xs"
    by (simp add: count_list_0_iff)
  moreover have "\<And>c. count_list xs c \<le> 1"
    using Cons.prems by (metis count_list.simps(2) le_add1 le_trans order_refl)
  ultimately show ?case
    using Cons.IH by simp
qed

lemma diag_loop_ok:
  assumes "length s = ndim r" "sorted_wrt (>) axes"
    and "\<forall>a \<in> set axes. first < a \<and> a < length s \<and> s ! a = l"
  shows "\<exists>ev r' s'. diag_loop first axes (r, s) = (ev, Inr (r', s')) \<and>
     length s' = ndim r' \<and> dtype r' = dtype r \<and>
     (\<forall>c. count_list s' c = (if c = l then count_list s c - length axes else count_list s c))"
  using assms
proof (induction axes arbitrary: r s)
  case Nil
  then show ?case by simp
next
  case (Cons axis axes)
  have ax: "first < axis" "axis < ndim r" "s ! axis = l" "axis < length s"
    using Cons.prems by auto
  obtain r1 where r1: "diagonal r axis first = Inr r1" "ndim r1 = ndim r - 1" "dtype r1 = dtype r"
    using diagonal_ok[of axis r first] ax by auto
  have "first < ndim r1" using r1 ax by simp
  from rollaxis_last_ok[OF this]
  obtain r2 where r2: "rollaxis r1 (- 1) (int first) = Inr r2" "ndim r2 = ndim r1" "dtype r2 = dtype r1"
    by auto
  let ?s1 = "take axis s @ drop (axis + 1) s"
  have len1: "length ?s1 = ndim r2"
    using ax r1 r2 Cons.prems(1) by simp
  have srt: "sorted_wrt (>) axes" using Cons.prems(2) by simp
  have below: "\<forall>a \<in> set axes. a < axis" using Cons.prems(2) by auto
  have rest: "\<forall>a \<in> set axes. first < a \<and> a < length ?s1 \<and> ?s1 ! a = l"
  proof
    fix a assume a: "a \<in> set axes"
    then have "a < axis" using below by simp
    moreover have "first < a" "s ! a = l" using Cons.prems(3) a by auto
    ultimately show "first < a \<and> a < length ?s1 \<and> ?s1 ! a = l"
      using ax by (simp add: nth_append)
  qed
  from Cons.IH[OF len1 srt rest]
  obtain ev r' s' where run: "diag_loop first axes (r2, ?s1) = (ev, Inr (r', s'))"
    and res: "length s' = ndim r'" "dtype r' = dtype r2"
      "\<forall>c. count_list s' c = (if c = l then count_list ?s1 c - length axes else count_list ?s1 c)"
    by blast
  have cnt: "\<forall>c. count_list s' c =
      (if c = l then count_list s c - length (axis # axes) else count_list s c)"
    using res(3) count_delete_at[OF ax(4)] ax(3) by simp
  have "diag_loop first (axis # axes) (r, s) =
      (EvDiagonal axis first # EvRollaxis (- 1) (int first) # ev, Inr (r', s'))"
    using r1(1) r2(1) run by simp
  then show ?case
    using res(1,2) r1(3) r2(3) cnt by simp
qed


lemma label_step_ok:
  assumes "length s = ndim r"
  shows "\<exists>ev r' s'.
     (case positions l s of
        [] \<Rightarrow> ret (r, s)
      | first # rest \<Rightarrow> diag_loop first (rev rest) (r, s)) = (ev, Inr (r', s')) \<and>
     length s' = ndim r' \<and> dtype r' = dtype r \<and>
     count_list s' l = (if l \<in> set s then 1 else 0) \<and>
     (\<forall>c. c \<noteq> l \<longrightarrow> count_list s' c = count_list s c)"
proof (cases "positions l s")
  case Nil
  then have "count_list s l = 0"
    using positions_length[of l s] by simp
  then show ?thesis
    using Nil assms by (simp add: count_list_0_iff)
next
  case (Cons first rest)
  have srt: "sorted_wrt (<) (first # rest)"
    using positions_sorted[of l s] Cons by simp
  have mem: "\<forall>a \<in> set (first # rest). a < length s \<and> s ! a = l"
    using positions_set[of l s] Cons by auto
  have cnt: "count_list s l = Suc (length rest)"
    using positions_length[of l s] Cons by simp
  have 1: "sorted_wrt (>) (rev rest)"
    using srt by (simp add: sorted_wrt_rev)
  have 2: "\<forall>a \<in> set (rev rest). first < a \<and> a < length s \<and> s ! a = l"
    using srt mem by auto
  from diag_loop_ok[OF assms 1 2]
  obtain ev r' s' where run: "diag_loop first (rev rest) (r, s) = (ev, Inr (r', s'))"
    and res: "length s' = ndim r'" "dtype r' = dtype r"
      "\<forall>c. count_list s' c = (if c = l then count_list s c - length (rev rest) else count_list s c)"
    by blast
  have "l \<in> set s" using mem by auto
  moreover have "count_list s' l = 1" using res(3) cnt by simp
  ultimately show ?thesis
    using Cons run res by simp
qed

lemma label_loop_ok:
  assumes "length s = ndim r"
    and "\<And>c. 2 \<le> count_list s c \<Longrightarrow> c \<in> set labels \<and> count_list orig c \<noteq> 1"
  shows "\<exists>ev r' s'. label_loop orig labels (r, s) = (ev, Inr (r', s')) \<and>
     length s' = ndim r' \<and> dtype r' = dtype r \<and> distinct s' \<and> set s' = set s"
  using assms
proof (induction labels arbitrary: r s)
  case Nil
  then have "\<And>c. count_list s c \<le> 1"
    by (metis empty_iff empty_set not_less_eq_eq numeral_2_eq_2 one_add_one plus_1_eq_Suc)
  then have "distinct s" by (rule distinct_count_le1)
  then show ?case using Nil by simp
next
  case (Cons l labels)
  show ?case
  proof (cases "count_list orig l = 1")
    case True
    have "\<And>c. 2 \<le> count_list s c \<Longrightarrow> c \<in> set labels \<and> count_list orig c \<noteq> 1"
      using Cons.prems(2) True by fastforce
    from Cons.IH[OF Cons.prems(1) this] show ?thesis
      using True by simp
  next
    case False
    from label_step_ok[OF Cons.prems(1), of l]
    obtain ev1 r1 s1 where step: "(case positions l s of
        [] \<Rightarrow> ret (r, s)
      | first # rest \<Rightarrow> diag_loop first (rev rest) (r, s)) = (ev1, Inr (r1, s1))"
      and res: "length s1 = ndim r1" "dtype r1 = dtype r"
        "count_list s1 l = (if l \<in> set s then 1 else 0)"
        "\<forall>c. c \<noteq> l \<longrightarrow> count_list s1 c = count_list s c"
      by blast
    have inv: "\<And>c. 2 \<le> count_list s1 c \<Longrightarrow> c \<in> set labels \<and> count_list orig c \<noteq> 1"
    proof -
      fix c assume c: "2 \<le> count_list s1 c"
      then have "c \<noteq> l" using res(3) by (auto split: if_splits)
      then have "2 \<le> count_list s c" using c res(4) by simp
      from Cons.prems(2)[OF this] \<open>c \<noteq> l\<close>
      show "c \<in> set labels \<and> count_list orig c \<noteq> 1" by simp
    qed
    have sets: "set s1 = set s"
    proof (rule set_eqI)
      fix c
      have "count_list s1 c = 0 \<longleftrightarrow> count_list s c = 0"
        using res(3,4) by (cases "c = l") (simp_all add: count_list_0_iff)
      then show "c \<in> set s1 \<longleftrightarrow> c \<in> set s"
        by (simp add: count_list_0_iff)
    qed
    from Cons.IH[OF res(1) inv]
    obtain ev2 r' s' where run: "label_loop orig labels (r1, s1) = (ev2, Inr (r', s'))"
      and fin: "length s' = ndim r'" "dtype r' = dtype r1" "distinct s'" "set s' = set s1"
      by blast
    have "label_loop orig (l # labels) (r, s) = (ev1 @ ev2, Inr (r', s'))"
      using False step run by simp
    then show ?thesis
      using fin res(2) sets by simp
  qed
qed

text \<open>
  C8. For every array and subscript with one label per axis, SingleViewCalculator
  returns (it raises nothing), every label of the resulting subscript occurs once,
  the resulting subscript still has one label per axis of the resulting array, and
  it has the labels of the given subscript. This holds for every order in which the
  set of labels is iterated.
\<close>

theorem SingleViewCalculator_unique_labels:
  assumes "iter_ok env" and "length subscript = ndim ioperand"
  shows "\<exists>ev result subscript'.
     SingleViewCalculator env ioperand subscript = (ev, Inr (result, subscript')) \<and>
     distinct subscript' \<and> length subscript' = ndim result \<and>
     set subscript' = set subscript"
proof -
  have "\<And>c. 2 \<le> count_list subscript c \<Longrightarrow>
      c \<in> set (set_iter env subscript) \<and> count_list subscript c \<noteq> 1"
  proof -
    fix c assume c: "2 \<le> count_list subscript c"
    then have "count_list subscript c \<noteq> 0" by simp
    then have "c \<in> set subscript" by (simp add: count_list_0_iff)
    then show "c \<in> set (set_iter env subscript) \<and> count_list subscript c \<noteq> 1"
      using assms(1) c by (simp add: iter_ok_def)
  qed
  from label_loop_ok[OF assms(2) this] show ?thesis
    unfolding SingleViewCalculator_def by blast
qed

theorem SingleViewCalculator_unique_labels_witness:
  "\<exists>ev result.
     SingleViewCalculator example_env
       (mk_array Int32 [2, 3, 2] [1, 2, 3, 4, 5, 6, 7, 8, 9, 10, 11, 12]) ''iji'' =
       (ev, Inr (result, ''ij'')) \<and>
     distinct ''ij'' \<and> length ''ij'' = ndim result \<and> set ''ij'' = set ''iji''"
proof -
  let ?a = "mk_array Int32 [2, 3, 2] [1, 2, 3, 4, 5, 6, 7, 8, 9, 10, 11, 12 :: int]"
  have run: "\<exists>ev result. SingleViewCalculator example_env ?a ''iji'' = (ev, Inr (result, ''ij''))"
    by (simp add: run_defs example_env_def mk_array_def upt_rec)
  have "length ''iji'' = ndim ?a"
    by (simp add: ndim_def mk_array_def)
  from SingleViewCalculator_unique_labels[OF example_iter_ok this] run show ?thesis
    by auto
qed

subsection \<open>The dtype through the pipeline\<close>

lemma bind_InrE:
  assumes "bind c f = (ev, Inr y)"
  obtains ev1 x ev2 where "c = (ev1, Inr x)" "f x = (ev2, Inr y)" "ev = ev1 @ ev2"
  using assms unfolding bind_eq_Inr by blast

lemma call_InrE:
  assumes "call e r = (ev, Inr x)"
  obtains "r = Inr x" "ev = [e]"
  using assms by (cases r) auto

lemma diagonal_dtype: "diagonal a i j = Inr r \<Longrightarrow> dtype r = dtype a"
  by (auto simp: diagonal_def Let_def split: if_splits)

lemma ndarray_transpose_dtype: "ndarray_transpose a axes = Inr r \<Longrightarrow> dtype r = dtype a"
  by (auto simp: ndarray_transpose_def Let_def split: if_splits)

lemma rollaxis_dtype: "rollaxis a i j = Inr r \<Longrightarrow> dtype r = dtype a"
  by (auto simp: rollaxis_def Let_def dest: ndarray_transpose_dtype split: if_splits)

lemma ndarray_sum_dtype: "ndarray_sum acc a axes = Inr r \<Longrightarrow> dtype r = acc (dtype a)"
  by (auto simp: ndarray_sum_def split: if_splits)

lemma diag_loop_dtype:
  "diag_loop first axes (r, s) = (ev, Inr (r', s')) \<Longrightarrow> dtype r' = dtype r"
proof (induction axes arbitrary: r s ev)
  case Nil
  then show ?case by simp
next
  case (Cons axis axes)
  from Cons.prems have
    "bind (call (EvDiagonal axis first) (diagonal r axis first)) (\<lambda>r1.
     bind (call (EvRollaxis (- 1) (int first)) (rollaxis r1 (- 1) (int first))) (\<lambda>r2.
     diag_loop first axes (r2, take axis s @ drop (axis + 1) s))) = (ev, Inr (r', s'))"
    by (simp only: diag_loop.simps)
  then obtain ev1 r1 ev2 where c1: "call (EvDiagonal axis first) (diagonal r axis first) = (ev1, Inr r1)"
    and b2: "bind (call (EvRollaxis (- 1) (int first)) (rollaxis r1 (- 1) (int first))) (\<lambda>r2.
     diag_loop first axes (r2, take axis s @ drop (axis + 1) s)) = (ev2, Inr (r', s'))"
    and e1: "ev = ev1 @ ev2"
    by (rule bind_InrE)
  from b2 obtain ev3 r2 ev4 where c2: "call (EvRollaxis (- 1) (int first)) (rollaxis r1 (- 1) (int first)) = (ev3, Inr r2)"
    and run: "diag_loop first axes (r2, take axis s @ drop (axis + 1) s) = (ev4, Inr (r', s'))"
    and e2: "ev2 = ev3 @ ev4"
    by (rule bind_InrE)
  have "dtype r1 = dtype r"
    using c1 by (elim call_InrE) (rule diagonal_dtype)
  moreover have "dtype r2 = dtype r1"
    using c2 by (elim call_InrE) (rule rollaxis_dtype)
  moreover have "dtype r' = dtype r2"
    using run by (rule Cons.IH)
  ultimately show ?case by simp
qed

lemma label_loop_dtype:
  "label_loop orig labels (r, s) = (ev, Inr (r', s')) \<Longrightarrow> dtype r' = dtype r"
proof (induction labels arbitrary: r s ev)
  case Nil
  then show ?case by simp
next
  case (Cons l labels)
  show ?case
  proof (cases "count_list orig l = 1")
    case True
    with Cons.prems have "label_loop orig labels (r, s) = (ev, Inr (r', s'))" by simp
    then show ?thesis by (rule Cons.IH)
  next
    case False
    let ?step = "case positions l s of [] \<Rightarrow> ret (r, s)
       | first # rest \<Rightarrow> diag_loop first (rev rest) (r, s)"
    from Cons.prems False have "bind ?step (label_loop orig labels) = (ev, Inr (r', s'))"
      by (simp only: label_loop.simps if_False)
    then obtain ev1 st ev2 where
      step: "?step = (ev1, Inr st)" and run: "label_loop orig labels st = (ev2, Inr (r', s'))"
      and e: "ev = ev1 @ ev2"
      by (rule bind_InrE)
    obtain r1 s1 where st: "st = (r1, s1)" by (cases st)
    have "dtype r1 = dtype r"
    proof (cases "positions l s")
      case Nil
      with step st show ?thesis by simp
    next
      case (Cons first rest)
      with step st have "diag_loop first (rev rest) (r, s) = (ev1, Inr (r1, s1))" by simp
      then show ?thesis by (rule diag_loop_dtype)
    qed
    moreover have "dtype r' = dtype r1"
      using run unfolding st by (rule Cons.IH)
    ultimately show ?thesis by simp
  qed
qed

lemma SingleViewCalculator_dtype:
  "SingleViewCalculator env a s = (ev, Inr (r, s')) \<Longrightarrow> dtype r = dtype a"
  unfolding SingleViewCalculator_def by (rule label_loop_dtype)

lemma i_parsers_loop_Cons:
  assumes "i_parsers_loop env i (sub # subs) cs = (ev, Inr ps)"
  obtains c rest ev1 calc ev2 calcs where "cs = c # rest"
    "SingleViewCalculator env c sub = (ev1, Inr calc)"
    "i_parsers_loop env (Suc i) subs rest = (ev2, Inr calcs)"
    "ps = calc # calcs" "ev = ev1 @ ev2" "length sub = ndim c"
proof (cases cs)
  case Nil
  with assms show ?thesis by simp
next
  case (Cons c rest)
  with assms have len: "length sub = ndim c"
    by (simp split: if_splits)
  with assms Cons have
    "bind (SingleViewCalculator env c sub) (\<lambda>calc.
       bind (i_parsers_loop env (Suc i) subs rest) (\<lambda>calcs. ret (calc # calcs))) = (ev, Inr ps)"
    by simp
  then obtain ev1 calc ev2' where 1: "SingleViewCalculator env c sub = (ev1, Inr calc)"
    and b: "bind (i_parsers_loop env (Suc i) subs rest) (\<lambda>calcs. ret (calc # calcs)) = (ev2', Inr ps)"
    and e: "ev = ev1 @ ev2'"
    by (rule bind_InrE)
  from b obtain ev2 calcs ev3 where 2: "i_parsers_loop env (Suc i) subs rest = (ev2, Inr calcs)"
    and 3: "ret (calc # calcs) = (ev3, Inr ps)" and e2: "ev2' = ev2 @ ev3"
    by (rule bind_InrE)
  from 3 have "ps = calc # calcs" "ev3 = []" by auto
  with that[OF Cons 1 2] e e2 len show ?thesis by simp
qed

lemma i_parsers_loop_dtype:
  "i_parsers_loop env i subs cs = (ev, Inr ps) \<Longrightarrow> \<forall>c \<in> set cs. dtype c = d \<Longrightarrow>
     \<forall>p \<in> set ps. dtype (fst p) = d"
proof (induction subs arbitrary: i cs ev ps)
  case Nil
  then show ?case by simp
next
  case (Cons sub subs)
  from Cons.prems(1) obtain c rest ev1 calc ev2 calcs where *: "cs = c # rest"
    "SingleViewCalculator env c sub = (ev1, Inr calc)"
    "i_parsers_loop env (Suc i) subs rest = (ev2, Inr calcs)"
    "ps = calc # calcs" "ev = ev1 @ ev2" "length sub = ndim c"
    by (rule i_parsers_loop_Cons)
  have "SingleViewCalculator env c sub = (ev1, Inr (fst calc, snd calc))"
    using *(2) by simp
  then have "dtype (fst calc) = dtype c"
    by (rule SingleViewCalculator_dtype)
  moreover have "\<forall>c \<in> set rest. dtype c = d" "dtype c = d"
    using Cons.prems(2) *(1) by simp_all
  moreover have "\<forall>p \<in> set calcs. dtype (fst p) = d"
    using *(3) \<open>\<forall>c \<in> set rest. dtype c = d\<close> by (rule Cons.IH)
  ultimately show ?case using *(4) by simp
qed

lemma i_parsers_loop_length:
  "i_parsers_loop env i subs cs = (ev, Inr ps) \<Longrightarrow> length ps = length subs"
proof (induction subs arbitrary: i cs ev ps)
  case Nil
  then show ?case by auto
next
  case (Cons sub subs)
  from Cons.prems(1) obtain c rest ev1 calc ev2 calcs where *: "cs = c # rest"
    "SingleViewCalculator env c sub = (ev1, Inr calc)"
    "i_parsers_loop env (Suc i) subs rest = (ev2, Inr calcs)"
    "ps = calc # calcs" "ev = ev1 @ ev2" "length sub = ndim c"
    by (rule i_parsers_loop_Cons)
  from Cons.IH[OF *(3)] *(4) show ?case by simp
qed

lemma tensordot_loop_dtype:
  "tensordot_loop env r rest = (ev, Inr R) \<Longrightarrow> \<forall>x \<in> set rest. dtype x = dtype r \<Longrightarrow>
     dtype R = dtype r"
proof (induction rest arbitrary: r ev)
  case Nil
  then show ?case by simp
next
  case (Cons a rest)
  let ?r1 = "tensordot (mul_dtype env) r a"
  have d1: "dtype ?r1 = dtype r"
    using Cons.prems(2) by (simp add: tensordot_def)
  from Cons.prems(1) have
    "bind (call EvTensordot (Inr ?r1)) (\<lambda>r. tensordot_loop env r rest) = (ev, Inr R)"
    by (simp only: tensordot_loop.simps)
  then obtain ev1 x ev2 where c: "call EvTensordot (Inr ?r1) = (ev1, Inr x)"
    and run: "tensordot_loop env x rest = (ev2, Inr R)" and e: "ev = ev1 @ ev2"
    by (rule bind_InrE)
  from c have x: "x = ?r1" by simp
  have "\<forall>y \<in> set rest. dtype y = dtype ?r1"
    using Cons.prems(2) d1 by simp
  from Cons.IH[OF run[unfolded x] this] d1 show ?case by simp
qed

lemma CombinedViewCalculator_dtype:
  assumes "CombinedViewCalculator env as subs = (ev, Inr (r, s))" "\<forall>x \<in> set as. dtype x = d"
  shows "dtype r = d"
proof (cases as)
  case Nil
  with assms show ?thesis by (simp add: CombinedViewCalculator_def)
next
  case (Cons a rest)
  with assms(1) have
    "bind (tensordot_loop env a rest) (\<lambda>result. ret (result, concat subs)) = (ev, Inr (r, s))"
    by (simp add: CombinedViewCalculator_def)
  then obtain ev1 x ev2 where 1: "tensordot_loop env a rest = (ev1, Inr x)"
    and 2: "ret (x, concat subs) = (ev2, Inr (r, s))" and e: "ev = ev1 @ ev2"
    by (rule bind_InrE)
  from 2 have "x = r" by simp
  with tensordot_loop_dtype[OF 1] assms(2) Cons show ?thesis by simp
qed

lemma SummedViewCalculator_dtype:
  assumes "SummedViewCalculator env a inp out = (ev, Inr (r, s))"
  shows "dtype r = dtype a"
proof -
  let ?axes = "filter (\<lambda>i. inp ! i \<in> set (filter (\<lambda>c. c \<notin> set out) inp)) [0..<length inp]"
  let ?sub = "fold (\<lambda>label s. filter (\<lambda>c. c \<noteq> label) s)
                (set_iter env (filter (\<lambda>c. c \<notin> set out) inp)) inp"
  let ?res = "if ?axes \<noteq> [] then
              bind (call (EvSum ?axes) (ndarray_sum (acc_dtype env) a ?axes)) (\<lambda>s.
              call (EvAstype (dtype a)) (Inr (astype (dtype a) s)))
            else ret a"
  from assms have "bind ?res (\<lambda>result. ret (result, ?sub)) = (ev, Inr (r, s))"
    unfolding SummedViewCalculator_def Let_def .
  then obtain ev1 x ev2 where 1: "?res = (ev1, Inr x)" and 2: "ret (x, ?sub) = (ev2, Inr (r, s))"
    and e: "ev = ev1 @ ev2"
    by (rule bind_InrE)
  from 2 have x: "x = r" by simp
  show ?thesis
  proof (cases "?axes = []")
    case True
    with 1 x show ?thesis by simp
  next
    case False
    with 1 have "bind (call (EvSum ?axes) (ndarray_sum (acc_dtype env) a ?axes)) (\<lambda>s.
              call (EvAstype (dtype a)) (Inr (astype (dtype a) s))) = (ev1, Inr x)"
      by (simp only: if_True not_False_eq_True)
    then obtain e1 y e2 where "call (EvSum ?axes) (ndarray_sum (acc_dtype env) a ?axes) = (e1, Inr y)"
      and c: "call (EvAstype (dtype a)) (Inr (astype (dtype a) y)) = (e2, Inr x)"
      and "ev1 = e1 @ e2"
      by (rule bind_InrE)
    from c have "x = astype (dtype a) y" by simp
    then have "dtype x = dtype a" by (simp add: astype_def)
    then show ?thesis unfolding x .
  qed
qed

lemma if_chain_cases:
  "(if c1 then x else if c2 then x else if c3 then y else z) = v \<Longrightarrow> x = v \<or> y = v \<or> z = v"
  by (auto split: if_splits)

lemma TransposedViewCalculator_dtype:
  assumes "TransposedViewCalculator a inp out = (ev, Inr r)"
  shows "dtype r = dtype a"
proof -
  let ?orders = "map (\<lambda>label. str_find inp [label]) out"
  from assms have "raise AssertionError = (ev, Inr r) \<or> ret a = (ev, Inr r) \<or>
      call (EvTranspose ?orders) (ndarray_transpose a ?orders) = (ev, Inr r)"
    unfolding TransposedViewCalculator_def Let_def by (rule if_chain_cases)
  then consider "ret a = (ev, Inr r)"
    | "call (EvTranspose ?orders) (ndarray_transpose a ?orders) = (ev, Inr r)"
    by auto
  then show ?thesis
  proof cases
    case 1
    then show ?thesis by simp
  next
    case 2
    then show ?thesis
      by (elim call_InrE) (rule ndarray_transpose_dtype)
  qed
qed

lemma convert_loop_Inr:
  "convert_loop d ops = (ev, Inr cs) \<Longrightarrow>
     length ev = length ops \<and> length cs = length ops \<and>
     map (conversion_of d) ops = map Some (zip ev cs)"
proof (induction ops arbitrary: ev cs)
  case Nil
  then show ?case by auto
next
  case (Cons a ops)
  let ?conv = "case a of
             Ndarray x \<Rightarrow> call (EvAstype d) (Inr (astype d x))
           | ArrayLike x \<Rightarrow> call (EvAsarray d) (Inr (astype d x))
           | Str s \<Rightarrow> raise ConversionError"
  from Cons.prems have
    "bind ?conv (\<lambda>c. bind (convert_loop d ops) (\<lambda>cs. ret (c # cs))) = (ev, Inr cs)"
    by (simp only: convert_loop.simps)
  then obtain ev1 c ev2 where 1: "?conv = (ev1, Inr c)"
    and b: "bind (convert_loop d ops) (\<lambda>cs. ret (c # cs)) = (ev2, Inr cs)"
    and e: "ev = ev1 @ ev2"
    by (rule bind_InrE)
  from b obtain ev3 cs' ev4 where 2: "convert_loop d ops = (ev3, Inr cs')"
    and 3: "ret (c # cs') = (ev4, Inr cs)" and e2: "ev2 = ev3 @ ev4"
    by (rule bind_InrE)
  from 3 have cs: "cs = c # cs'" and ev4: "ev4 = []" by auto
  from 1 have a: "conversion_of d a = Some (hd ev1, c) \<and> length ev1 = 1"
    by (cases a) auto
  then obtain e1 where ev1: "ev1 = [e1]" "conversion_of d a = Some (e1, c)"
    by (cases ev1) auto
  from Cons.IH[OF 2] show ?case
    unfolding e e2 ev4 cs ev1 using ev1(2) by simp
qed

lemma convert_inputs_conversion:
  assumes "convert_inputs env ops = (ev, Inr cs)"
  shows "\<exists>d. numpy_result_type env ops = Inr d \<and> length ev = length ops \<and>
     length cs = length ops \<and> map (conversion_of d) ops = map Some (zip ev cs)"
proof (cases "numpy_result_type env ops")
  case (Inl e)
  with assms show ?thesis by (simp add: convert_inputs_def)
next
  case (Inr d)
  with assms have "convert_loop d ops = (ev, Inr cs)"
    by (simp add: convert_inputs_def)
  from convert_loop_Inr[OF this] Inr show ?thesis by simp
qed

lemma einsum_compute_dtype:
  assumes run: "einsum_compute env cs inp out = (ev, Inr R)" and d: "\<forall>c \<in> set cs. dtype c = d"
  shows "dtype R = d"
proof -
  let ?subs = "split_comma inp"
  let ?branch = "\<lambda>ps. if 2 \<le> length cs then
              bind (CombinedViewCalculator env (map fst ps) (map snd ps))
                (\<lambda>(result, subscript). SingleViewCalculator env result subscript)
            else (case ps of [] \<Rightarrow> raise IndexError | calc # _ \<Rightarrow> ret calc)"
  let ?tail = "\<lambda>(result, subscript).
           bind (SummedViewCalculator env result subscript out)
             (\<lambda>(result, subscript). TransposedViewCalculator result subscript out)"
  from run have "bind (i_parsers_loop env 0 ?subs cs) (\<lambda>ps. bind (?branch ps) ?tail) = (ev, Inr R)"
    by (simp add: einsum_compute_def Let_def split: if_splits)
  then obtain ev1 ps ev2 where ip: "i_parsers_loop env 0 ?subs cs = (ev1, Inr ps)"
    and b: "bind (?branch ps) ?tail = (ev2, Inr R)" and e: "ev = ev1 @ ev2"
    by (rule bind_InrE)
  have psd: "\<forall>p \<in> set ps. dtype (fst p) = d"
    using ip d by (rule i_parsers_loop_dtype)
  from b obtain ev3 st ev4 where br: "?branch ps = (ev3, Inr st)"
    and tl: "?tail st = (ev4, Inr R)" and e2: "ev2 = ev3 @ ev4"
    by (rule bind_InrE)
  obtain r1 s1 where st: "st = (r1, s1)" by (cases st)
  have r1: "dtype r1 = d"
  proof (cases "2 \<le> length cs")
    case True
    with br have "bind (CombinedViewCalculator env (map fst ps) (map snd ps))
                (\<lambda>(result, subscript). SingleViewCalculator env result subscript) = (ev3, Inr st)"
      by (simp only: if_True)
    then obtain e5 st0 e6 where cv: "CombinedViewCalculator env (map fst ps) (map snd ps) = (e5, Inr st0)"
      and sv: "(\<lambda>(result, subscript). SingleViewCalculator env result subscript) st0 = (e6, Inr st)"
      and "ev3 = e5 @ e6"
      by (rule bind_InrE)
    obtain r0 s0 where st0: "st0 = (r0, s0)" by (cases st0)
    have "\<forall>x \<in> set (map fst ps). dtype x = d" using psd by simp
    with cv[unfolded st0] have "dtype r0 = d" by (rule CombinedViewCalculator_dtype)
    moreover from sv have "SingleViewCalculator env r0 s0 = (e6, Inr (r1, s1))"
      unfolding st0 st by simp
    then have "dtype r1 = dtype r0" by (rule SingleViewCalculator_dtype)
    ultimately show ?thesis by simp
  next
    case False
    with br have "(case ps of [] \<Rightarrow> raise IndexError | calc # _ \<Rightarrow> ret calc) = (ev3, Inr st)"
      by (simp only: if_False)
    then have "ps \<noteq> [] \<and> hd ps = st"
      by (cases ps) auto
    with psd st show ?thesis by (cases ps) auto
  qed
  from tl have "bind (SummedViewCalculator env r1 s1 out)
             (\<lambda>(result, subscript). TransposedViewCalculator result subscript out) = (ev4, Inr R)"
    unfolding st by simp
  then obtain e7 st2 e8 where sm: "SummedViewCalculator env r1 s1 out = (e7, Inr st2)"
    and tr: "(\<lambda>(result, subscript). TransposedViewCalculator result subscript out) st2 = (e8, Inr R)"
    and "ev4 = e7 @ e8"
    by (rule bind_InrE)
  obtain r2 s2 where st2: "st2 = (r2, s2)" by (cases st2)
  from sm[unfolded st2] have "dtype r2 = dtype r1" by (rule SummedViewCalculator_dtype)
  moreover from tr have "TransposedViewCalculator r2 s2 out = (e8, Inr R)"
    unfolding st2 by simp
  then have "dtype R = dtype r2" by (rule TransposedViewCalculator_dtype)
  ultimately show ?thesis using r1 by simp
qed

lemma einsum_Inr:
  fixes env :: "('d, 'a::comm_semiring_0) env"
  assumes "einsum env operands = (ev, Inr R)"
  obtains s0 ioperands evc cs inp out ev' where
    "operands = Str s0 # ioperands" "passes_char_checks s0"
    "convert_inputs env ioperands = (evc, Inr cs)"
    "split_output env (filter (\<lambda>c. c \<noteq> CHR '' '') s0) = ([], Inr (inp, out))"
    "einsum_compute env cs inp out = (ev', Inr R)" "ev = evc @ ev'"
proof (cases operands)
  case Nil
  with assms show ?thesis by (simp add: einsum_def)
next
  case (Cons x ioperands)
  show ?thesis
  proof (cases x)
    case (Ndarray a)
    with assms Cons show ?thesis by (simp add: einsum_def)
  next
    case (ArrayLike a)
    with assms Cons show ?thesis by (simp add: einsum_def)
  next
    case (Str s0)
    show ?thesis
    proof (cases "passes_char_checks s0")
      case False
      from einsum_Str_invalid[OF this, of env ioperands] assms Cons Str show ?thesis
        by auto
    next
      case True
      let ?s = "filter (\<lambda>c. c \<noteq> CHR '' '') s0"
      let ?after = "\<lambda>cs. bind (check_arrow ?s) (\<lambda>_.
         bind (split_output env ?s) (\<lambda>(inp, out). einsum_compute env cs inp out))"
      from assms Cons Str True
      have "bind (convert_inputs env ioperands) ?after = (ev, Inr R)"
        by (simp add: einsum_Str_valid)
      then obtain evc cs ev' where ci: "convert_inputs env ioperands = (evc, Inr cs)"
        and af: "?after cs = (ev', Inr R)" and e: "ev = evc @ ev'"
        by (rule bind_InrE)
      from af obtain e1 u e2 where ca: "check_arrow ?s = (e1 :: 'd event list, Inr (u :: unit))"
        and sp: "bind (split_output env ?s) (\<lambda>(inp, out). einsum_compute env cs inp out) = (e2, Inr R)"
        and e': "ev' = e1 @ e2"
        by (rule bind_InrE)
      note ca
      moreover have "check_arrow ?s = (([], Inr ()) :: ('d, unit) m) \<or>
          check_arrow ?s = (([], Inl MalformedArrowError) :: ('d, unit) m)"
        by (rule check_arrow_cases)
      ultimately have e1: "e1 = []"
        by auto
      from sp obtain e3 io e4 where so: "split_output env ?s = (e3, Inr io)"
        and ec: "(\<lambda>(inp, out). einsum_compute env cs inp out) io = (e4, Inr R)"
        and e'': "e2 = e3 @ e4"
        by (rule bind_InrE)
      obtain inp out where io: "io = (inp, out)" by (cases io)
      have e3: "e3 = []"
        using split_output_cases[of env ?s] so by auto
      have "einsum_compute env cs inp out = (ev', Inr R)"
        using ec unfolding io e' e'' e1 e3 by simp
      with that[OF _ True ci _ _ e] Cons Str so io e3 show ?thesis
        by simp
    qed
  qed
qed

lemma SummedViewCalculator_log:
  assumes "SummedViewCalculator env a inp out = (ev, Inr (r, s))"
  shows "ev = [] \<or> (\<exists>axes. ev = [EvSum axes, EvAstype (dtype a)])"
proof -
  let ?axes = "filter (\<lambda>i. inp ! i \<in> set (filter (\<lambda>c. c \<notin> set out) inp)) [0..<length inp]"
  let ?sub = "fold (\<lambda>label s. filter (\<lambda>c. c \<noteq> label) s)
                (set_iter env (filter (\<lambda>c. c \<notin> set out) inp)) inp"
  let ?res = "if ?axes \<noteq> [] then
              bind (call (EvSum ?axes) (ndarray_sum (acc_dtype env) a ?axes)) (\<lambda>s.
              call (EvAstype (dtype a)) (Inr (astype (dtype a) s)))
            else ret a"
  from assms have "bind ?res (\<lambda>result. ret (result, ?sub)) = (ev, Inr (r, s))"
    unfolding SummedViewCalculator_def Let_def .
  then obtain ev1 x ev2 where 1: "?res = (ev1, Inr x)" and 2: "ret (x, ?sub) = (ev2, Inr (r, s))"
    and e: "ev = ev1 @ ev2"
    by (rule bind_InrE)
  from 2 have ev2: "ev2 = []" by simp
  show ?thesis
  proof (cases "?axes = []")
    case True
    with 1 have "ev1 = []" by simp
    then show ?thesis using e ev2 by simp
  next
    case False
    with 1 have "bind (call (EvSum ?axes) (ndarray_sum (acc_dtype env) a ?axes)) (\<lambda>s.
              call (EvAstype (dtype a)) (Inr (astype (dtype a) s))) = (ev1, Inr x)"
      by (simp only: if_True not_False_eq_True)
    then obtain e1 y e2 where c1: "call (EvSum ?axes) (ndarray_sum (acc_dtype env) a ?axes) = (e1, Inr y)"
      and c2: "call (EvAstype (dtype a)) (Inr (astype (dtype a) y)) = (e2, Inr x)"
      and e': "ev1 = e1 @ e2"
      by (rule bind_InrE)
    from c1 have "e1 = [EvSum ?axes]" by (rule call_InrE)
    moreover from c2 have "e2 = [EvAstype (dtype a)]" by (rule call_InrE)
    ultimately show ?thesis using e e' ev2 by simp
  qed
qed

text \<open>
  C7. Whenever \<open>einsum\<close> returns an array: the common dtype of the operands was
  resolved; the log starts with the conversion of every operand to it, an
  \<open>astype\<close> for an array and an \<open>asarray\<close> for an array-like value, in the order
  of the operands, and the pipeline ran on the converted arrays; and the array
  returned has that dtype. The summation stage returns an array of the dtype of its
  own input: when it sums, it logs the sum and then the cast back to that dtype,
  whatever dtype the sum accumulates in.
\<close>

theorem einsum_common_dtype:
  fixes env :: "('d, 'a::comm_semiring_0) env"
  shows "(einsum env operands = (ev, Inr R) \<longrightarrow>
      (\<exists>d evc cs ev'. numpy_result_type env (tl operands) = Inr d \<and>
         convert_inputs env (tl operands) = (evc, Inr cs) \<and> ev = evc @ ev' \<and>
         length evc = length (tl operands) \<and> length cs = length (tl operands) \<and>
         map (conversion_of d) (tl operands) = map Some (zip evc cs) \<and>
         list_all (\<lambda>c. dtype c = d) cs \<and> dtype R = d)) \<and>
     (SummedViewCalculator env a inp out = (ev2, Inr (r, s)) \<longrightarrow>
        dtype r = dtype a \<and> (ev2 = [] \<or> (\<exists>axes. ev2 = [EvSum axes, EvAstype (dtype a)])))"
proof (intro conjI impI)
  assume run: "einsum env operands = (ev, Inr R)"
  then obtain s0 ioperands evc cs inp' out' ev' where *:
    "operands = Str s0 # ioperands" "passes_char_checks s0"
    "convert_inputs env ioperands = (evc, Inr cs)"
    "split_output env (filter (\<lambda>c. c \<noteq> CHR '' '') s0) = ([], Inr (inp', out'))"
    "einsum_compute env cs inp' out' = (ev', Inr R)" "ev = evc @ ev'"
    by (rule einsum_Inr)
  from convert_inputs_conversion[OF *(3)] obtain d where d:
    "numpy_result_type env ioperands = Inr d" "length evc = length ioperands"
    "length cs = length ioperands" "map (conversion_of d) ioperands = map Some (zip evc cs)"
    by blast
  from convert_inputs_Inr[OF *(3)] d(1) have all: "list_all (\<lambda>c. dtype c = d) cs"
    by auto
  then have "\<forall>c \<in> set cs. dtype c = d" by (simp add: list_all_iff)
  with *(5) have "dtype R = d" by (rule einsum_compute_dtype)
  with * d all show "\<exists>d evc cs ev'. numpy_result_type env (tl operands) = Inr d \<and>
         convert_inputs env (tl operands) = (evc, Inr cs) \<and> ev = evc @ ev' \<and>
         length evc = length (tl operands) \<and> length cs = length (tl operands) \<and>
         map (conversion_of d) (tl operands) = map Some (zip evc cs) \<and>
         list_all (\<lambda>c. dtype c = d) cs \<and> dtype R = d"
    by auto
next
  assume "SummedViewCalculator env a inp out = (ev2, Inr (r, s))"
  then show "dtype r = dtype a" by (rule SummedViewCalculator_dtype)
next
  assume "SummedViewCalculator env a inp out = (ev2, Inr (r, s))"
  then show "ev2 = [] \<or> (\<exists>axes. ev2 = [EvSum axes, EvAstype (dtype a)])"
    by (rule SummedViewCalculator_log)
qed

lemma bind_Inr_case: "bind (ev, Inr x) f = (case f x of (ev', r) \<Rightarrow> (ev @ ev', r))"
  by (simp add: bind_def)

lemmas eval_defs = run_defs bind_Inr_case ret_def raise_def

theorem einsum_common_dtype_witness:
  "(\<exists>ev R. einsum example_env
       [Str ''ij,j->i'', Ndarray (mk_array Int32 [2, 2] [1, 2, 3, 4]),
        ArrayLike (mk_array Int64 [2] [5, 6])] = (ev, Inr R) \<and>
      take 2 ev = [EvAstype Int64, EvAsarray Int64] \<and> dtype R = Int64) \<and>
   (\<exists>r s. SummedViewCalculator example_env (mk_array Int32 [2, 2] [1, 2, 3, 4]) ''ij'' ''i'' =
       ([EvSum [1], EvAstype Int32], Inr (r, s)) \<and> dtype r = Int32)"
proof -
  let ?ops = "[Str ''ij,j->i'', Ndarray (mk_array Int32 [2, 2] [1, 2, 3, 4 :: int]),
        ArrayLike (mk_array Int64 [2] [5, 6])]"
  let ?a = "mk_array Int32 [2, 2] [1, 2, 3, 4 :: int]"
  have run: "\<exists>ev R. einsum example_env ?ops = (ev, Inr R)"
    by (simp add: eval_defs example_env_def mk_array_def del: bind_Inr)
  then obtain ev R where r: "einsum example_env ?ops = (ev, Inr R)" by blast
  have rt: "numpy_result_type example_env (tl ?ops) = Inr Int64"
    by (simp add: numpy_result_type_def example_env_def mk_array_def)
  have ci: "convert_inputs example_env (tl ?ops) =
     ([EvAstype Int64, EvAsarray Int64],
      Inr [astype Int64 (mk_array Int32 [2, 2] [1, 2, 3, 4]), astype Int64 (mk_array Int64 [2] [5, 6])])"
    by (simp add: convert_inputs_def numpy_result_type_def example_env_def mk_array_def)
  have sm: "\<exists>r s. SummedViewCalculator example_env ?a ''ij'' ''i'' =
       ([EvSum [1], EvAstype Int32], Inr (r, s))"
    by (simp add: eval_defs example_env_def mk_array_def del: bind_Inr)
  then obtain r' s' where s: "SummedViewCalculator example_env ?a ''ij'' ''i'' =
       ([EvSum [1], EvAstype Int32], Inr (r', s'))" by blast
  from einsum_common_dtype[of example_env ?ops ev R ?a "''ij''" "''i''" "[EvSum [1], EvAstype Int32]" r' s'] r rt ci s
  show ?thesis by (auto simp: mk_array_def)
qed

subsection \<open>The log at a rank mismatch\<close>

lemma bind_InlE:
  assumes "bind c f = (ev, Inl e)"
  obtains "c = (ev, Inl e)"
  | ev1 x ev2 where "c = (ev1, Inr x)" "f x = (ev2, Inl e)" "ev = ev1 @ ev2"
  using assms unfolding bind_eq_Inl by blast

lemma diagonal_ndim: "diagonal a i j = Inr r \<Longrightarrow> Suc (ndim r) = ndim a"
proof -
  assume d: "diagonal a i j = Inr r"
  then have c: "i < ndim a" "j < ndim a" "i \<noteq> j"
    by (auto simp: diagonal_def split: if_splits)
  from diagonal_ok[OF c] d have "ndim r = ndim a - 1" by simp
  with c show ?thesis by simp
qed

lemma ndarray_transpose_ndim: "ndarray_transpose a axes = Inr r \<Longrightarrow> ndim r = ndim a"
  by (auto simp: ndarray_transpose_def Let_def ndim_def split: if_splits)

lemma rollaxis_ndim: "rollaxis a i j = Inr r \<Longrightarrow> ndim r = ndim a"
  by (auto simp: rollaxis_def Let_def dest: ndarray_transpose_ndim split: if_splits)

lemma diag_loop_count:
  "diag_loop first axes (r, s) = (ev, Inr (r', s')) \<Longrightarrow>
     ndim r' + length axes = ndim r \<and> length (filter is_diagonal ev) = length axes"
proof (induction axes arbitrary: r s ev)
  case Nil
  then show ?case by simp
next
  case (Cons axis axes)
  from Cons.prems have
    "bind (call (EvDiagonal axis first) (diagonal r axis first)) (\<lambda>r1.
     bind (call (EvRollaxis (- 1) (int first)) (rollaxis r1 (- 1) (int first))) (\<lambda>r2.
     diag_loop first axes (r2, take axis s @ drop (axis + 1) s))) = (ev, Inr (r', s'))"
    by (simp only: diag_loop.simps)
  then obtain ev1 r1 ev2 where c1: "call (EvDiagonal axis first) (diagonal r axis first) = (ev1, Inr r1)"
    and b2: "bind (call (EvRollaxis (- 1) (int first)) (rollaxis r1 (- 1) (int first))) (\<lambda>r2.
     diag_loop first axes (r2, take axis s @ drop (axis + 1) s)) = (ev2, Inr (r', s'))"
    and e1: "ev = ev1 @ ev2"
    by (rule bind_InrE)
  from b2 obtain ev3 r2 ev4 where c2: "call (EvRollaxis (- 1) (int first)) (rollaxis r1 (- 1) (int first)) = (ev3, Inr r2)"
    and run: "diag_loop first axes (r2, take axis s @ drop (axis + 1) s) = (ev4, Inr (r', s'))"
    and e2: "ev2 = ev3 @ ev4"
    by (rule bind_InrE)
  from c1 have d1: "diagonal r axis first = Inr r1" and ev1: "ev1 = [EvDiagonal axis first]"
    by (auto elim: call_InrE)
  from c2 have d2: "rollaxis r1 (- 1) (int first) = Inr r2" and ev3: "ev3 = [EvRollaxis (- 1) (int first)]"
    by (auto elim: call_InrE)
  have "Suc (ndim r1) = ndim r" using d1 by (rule diagonal_ndim)
  moreover have "ndim r2 = ndim r1" using d2 by (rule rollaxis_ndim)
  moreover have "ndim r' + length axes = ndim r2 \<and> length (filter is_diagonal ev4) = length axes"
    using run by (rule Cons.IH)
  ultimately show ?case
    unfolding e1 e2 ev1 ev3 by simp
qed

lemma label_loop_count:
  "label_loop orig labels (r, s) = (ev, Inr (r', s')) \<Longrightarrow>
     ndim r' + length (filter is_diagonal ev) = ndim r"
proof (induction labels arbitrary: r s ev)
  case Nil
  then show ?case by simp
next
  case (Cons l labels)
  show ?case
  proof (cases "count_list orig l = 1")
    case True
    with Cons.prems have "label_loop orig labels (r, s) = (ev, Inr (r', s'))" by simp
    then show ?thesis by (rule Cons.IH)
  next
    case False
    let ?step = "case positions l s of [] \<Rightarrow> ret (r, s)
       | first # rest \<Rightarrow> diag_loop first (rev rest) (r, s)"
    from Cons.prems False have "bind ?step (label_loop orig labels) = (ev, Inr (r', s'))"
      by (simp only: label_loop.simps if_False)
    then obtain ev1 st ev2 where
      step: "?step = (ev1, Inr st)" and run: "label_loop orig labels st = (ev2, Inr (r', s'))"
      and e: "ev = ev1 @ ev2"
      by (rule bind_InrE)
    obtain r1 s1 where st: "st = (r1, s1)" by (cases st)
    have "ndim r1 + length (filter is_diagonal ev1) = ndim r"
    proof (cases "positions l s")
      case Nil
      with step st show ?thesis by simp
    next
      case (Cons first rest)
      with step st have "diag_loop first (rev rest) (r, s) = (ev1, Inr (r1, s1))" by simp
      from diag_loop_count[OF this] show ?thesis by simp
    qed
    moreover have "ndim r' + length (filter is_diagonal ev2) = ndim r1"
      using run unfolding st by (rule Cons.IH)
    ultimately show ?thesis unfolding e by simp
  qed
qed

lemma SingleViewCalculator_returns:
  assumes "iter_ok env" and "length s = ndim a"
  shows "\<exists>ev r s'. SingleViewCalculator env a s = (ev, Inr (r, s')) \<and>
     distinct s' \<and> length s' = ndim r \<and> set s' = set s"
proof -
  have "\<And>c. 2 \<le> count_list s c \<Longrightarrow> c \<in> set (set_iter env s) \<and> count_list s c \<noteq> 1"
  proof -
    fix c assume c: "2 \<le> count_list s c"
    then have "count_list s c \<noteq> 0" by simp
    then have "c \<in> set s" by (simp add: count_list_0_iff)
    then show "c \<in> set (set_iter env s) \<and> count_list s c \<noteq> 1"
      using assms(1) c by (simp add: iter_ok_def)
  qed
  from label_loop_ok[OF assms(2) this] show ?thesis
    unfolding SingleViewCalculator_def by blast
qed

lemma SingleViewCalculator_diagonals:
  assumes "iter_ok env" and "length s = ndim a"
  shows "length (filter is_diagonal (fst (SingleViewCalculator env a s))) =
     length s - card (set s)"
proof -
  from SingleViewCalculator_returns[OF assms]
  obtain ev r s' where run: "SingleViewCalculator env a s = (ev, Inr (r, s'))"
    and res: "distinct s'" "length s' = ndim r" "set s' = set s"
    by blast
  have "ndim r + length (filter is_diagonal ev) = ndim a"
    using run unfolding SingleViewCalculator_def by (rule label_loop_count)
  moreover have "length s' = card (set s)"
    using res(1,3) by (metis distinct_card)
  ultimately show ?thesis
    using run res(2) assms(2) by simp
qed

lemma SingleViewCalculator_Inl:
  "SingleViewCalculator env a s = (ev, Inl e) \<Longrightarrow> e = AxisError"
  using SingleViewCalculator_logs[of env a s] by (simp add: logs_only_def)

lemma i_parsers_loop_rank_error:
  assumes "i_parsers_loop env i subs cs = (ev, Inl e)"
    and "(\<exists>n. e = TooManySubscriptsError n) \<or> e = TooFewSubscriptsError"
  shows "\<exists>k. k < length subs \<and> k < length cs \<and>
     (\<forall>(sub, c) \<in> set (take k (zip subs cs)).
        length sub = ndim c \<and> (\<exists>p. snd (SingleViewCalculator env c sub) = Inr p)) \<and>
     ev = concat (map (\<lambda>(sub, c). fst (SingleViewCalculator env c sub)) (take k (zip subs cs))) \<and>
     length (subs ! k) \<noteq> ndim (cs ! k) \<and>
     (ndim (cs ! k) < length (subs ! k) \<longrightarrow> e = TooManySubscriptsError (i + k)) \<and>
     (length (subs ! k) < ndim (cs ! k) \<longrightarrow> e = TooFewSubscriptsError)"
  using assms
proof (induction subs arbitrary: i cs ev)
  case Nil
  then show ?case by simp
next
  case (Cons sub subs)
  show ?case
  proof (cases cs)
    case Nil
    with Cons.prems show ?thesis by auto
  next
    case cs: (Cons c rest)
    consider "ndim c < length sub" | "length sub < ndim c" | "length sub = ndim c"
      by linarith
    then show ?thesis
    proof cases
      case 1
      with Cons.prems(1) cs have "ev = []" "e = TooManySubscriptsError i" by auto
      with 1 cs show ?thesis by (intro exI[of _ 0]) simp
    next
      case 2
      with Cons.prems(1) cs have "ev = []" "e = TooFewSubscriptsError" by auto
      with 2 cs show ?thesis by (intro exI[of _ 0]) simp
    next
      case 3
      with Cons.prems(1) cs have
        "bind (SingleViewCalculator env c sub) (\<lambda>calc.
           bind (i_parsers_loop env (Suc i) subs rest) (\<lambda>calcs. ret (calc # calcs))) = (ev, Inl e)"
        by simp
      then show ?thesis
      proof (cases rule: bind_InlE)
        case 1
        from SingleViewCalculator_Inl[OF this] Cons.prems(2) show ?thesis by auto
      next
        case (2 ev1 calc ev2)
        from 2(2) have loop: "i_parsers_loop env (Suc i) subs rest = (ev2, Inl e)"
        proof (cases rule: bind_InlE)
          case 1
          then show ?thesis .
        next
          case (2 e1 x e2)
          then show ?thesis by simp
        qed
        from Cons.IH[OF loop Cons.prems(2)]
        obtain k where k: "k < length subs" "k < length rest"
          "\<forall>(sub, c) \<in> set (take k (zip subs rest)).
             length sub = ndim c \<and> (\<exists>p. snd (SingleViewCalculator env c sub) = Inr p)"
          "ev2 = concat (map (\<lambda>(sub, c). fst (SingleViewCalculator env c sub)) (take k (zip subs rest)))"
          "length (subs ! k) \<noteq> ndim (rest ! k)"
          "ndim (rest ! k) < length (subs ! k) \<longrightarrow> e = TooManySubscriptsError (Suc i + k)"
          "length (subs ! k) < ndim (rest ! k) \<longrightarrow> e = TooFewSubscriptsError"
          by blast
        show ?thesis
          using k 2(1,3) 3 cs by (intro exI[of _ "Suc k"]) simp
      qed
    qed
  qed
qed

lemma is_collapse_concat:
  "list_all is_collapse
     (concat (map (\<lambda>(sub, c). fst (SingleViewCalculator env c sub)) xs))"
proof (induction xs)
  case Nil
  show ?case by simp
next
  case (Cons x xs)
  obtain sub c where x: "x = (sub, c)" by (cases x)
  have "list_all is_collapse (fst (SingleViewCalculator env c sub))"
    using SingleViewCalculator_logs[of env c sub] by (simp add: logs_only_def)
  with Cons x show ?case by simp
qed

lemma diagonals_concat:
  assumes "iter_ok env" and "\<forall>(sub, c) \<in> set xs. length sub = ndim c"
  shows "length (filter is_diagonal
       (concat (map (\<lambda>(sub, c). fst (SingleViewCalculator env c sub)) xs))) =
     sum_list (map (\<lambda>(sub, c). length sub - card (set sub)) xs)"
  using assms(2)
proof (induction xs)
  case Nil
  show ?case by simp
next
  case (Cons x xs)
  obtain sub c where x: "x = (sub, c)" by (cases x)
  have "length sub = ndim c" using Cons.prems x by simp
  from SingleViewCalculator_diagonals[OF assms(1) this]
  have "length (filter is_diagonal (fst (SingleViewCalculator env c sub))) =
      length sub - card (set sub)" .
  moreover have "length (filter is_diagonal
       (concat (map (\<lambda>(sub, c). fst (SingleViewCalculator env c sub)) xs))) =
     sum_list (map (\<lambda>(sub, c). length sub - card (set sub)) xs)"
    using Cons.prems by (intro Cons.IH) simp
  ultimately show ?case using x by simp
qed

lemma conversions_no_diagonal:
  "list_all (is_conversion d) ev \<Longrightarrow> filter is_diagonal ev = []"
proof (induction ev)
  case Nil
  show ?case by simp
next
  case (Cons x ev)
  then show ?case by (cases x) auto
qed

lemma einsum_compute_rank_error:
  assumes "einsum_compute env cs inp out = (ev, Inl e)"
    and "(\<exists>n. e = TooManySubscriptsError n) \<or> e = TooFewSubscriptsError"
  shows "length (split_comma inp) = length cs \<and>
     i_parsers_loop env 0 (split_comma inp) cs = (ev, Inl e)"
proof -
  let ?subs = "split_comma inp"
  consider "length ?subs < length cs" | "length ?subs > length cs" | "length ?subs = length cs"
    by linarith
  then show ?thesis
  proof cases
    case 1
    with assms show ?thesis by (auto simp: einsum_compute_def)
  next
    case 2
    with assms show ?thesis by (auto simp: einsum_compute_def)
  next
    case 3
    let ?rest = "\<lambda>ps. bind (if 2 \<le> length cs then
              bind (CombinedViewCalculator env (map fst ps) (map snd ps))
                (\<lambda>(result, subscript). SingleViewCalculator env result subscript)
            else (case ps of [] \<Rightarrow> raise IndexError | calc # _ \<Rightarrow> ret calc))
        (\<lambda>(result, subscript).
           bind (SummedViewCalculator env result subscript out)
             (\<lambda>(result, subscript). TransposedViewCalculator result subscript out))"
    from assms(1) 3 have "bind (i_parsers_loop env 0 ?subs cs) ?rest = (ev, Inl e)"
      by (simp add: einsum_compute_def)
    then show ?thesis
    proof (cases rule: bind_InlE)
      case 1
      with 3 show ?thesis by simp
    next
      case (2 ev1 ps ev2)
      with pipeline_logs[of cs env ps out] assms(2) show ?thesis by auto
    qed
  qed
qed

lemma einsum_rank_error_stage:
  fixes env :: "('d, 'a::comm_semiring_0) env"
  assumes run: "einsum env operands = (ev, Inl e)"
    and rank: "(\<exists>n. e = TooManySubscriptsError n) \<or> e = TooFewSubscriptsError"
  obtains s0 ioperands evc cs inp out ev' where
    "operands = Str s0 # ioperands"
    "convert_inputs env ioperands = (evc, Inr cs)"
    "split_output env (filter (\<lambda>c. c \<noteq> CHR '' '') s0) = ([], Inr (inp, out))"
    "einsum_compute env cs inp out = (ev', Inl e)" "ev = evc @ ev'"
proof (cases operands)
  case Nil
  with run rank show ?thesis by (auto simp: einsum_def)
next
  case (Cons x ioperands)
  show ?thesis
  proof (cases x)
    case (Ndarray a)
    with run rank Cons show ?thesis by (auto simp: einsum_def)
  next
    case (ArrayLike a)
    with run rank Cons show ?thesis by (auto simp: einsum_def)
  next
    case (Str s0)
    show ?thesis
    proof (cases "passes_char_checks s0")
      case False
      from einsum_Str_invalid[OF this, of env ioperands] run rank Cons Str show ?thesis
        by auto
    next
      case True
      let ?s = "filter (\<lambda>c. c \<noteq> CHR '' '') s0"
      let ?after = "\<lambda>cs. bind (check_arrow ?s) (\<lambda>_.
         bind (split_output env ?s) (\<lambda>(inp, out). einsum_compute env cs inp out))"
      from run Cons Str True
      have "bind (convert_inputs env ioperands) ?after = (ev, Inl e)"
        by (simp add: einsum_Str_valid)
      then show ?thesis
      proof (cases rule: bind_InlE)
        case 1
        from convert_inputs_Inl[OF this] rank show ?thesis by auto
      next
        case (2 evc cs ev')
        have ca: "check_arrow ?s = (([], Inr ()) :: ('d, unit) m) \<or>
              check_arrow ?s = (([], Inl MalformedArrowError) :: ('d, unit) m)"
          by (rule check_arrow_cases)
        from 2(2) show ?thesis
        proof (cases rule: bind_InlE)
          case 1
          with ca rank show ?thesis by auto
        next
          case (2 e1 u e2)
          with ca have e1: "e1 = []" by auto
          obtain r where so: "split_output env ?s = ([], r)"
            and r: "\<forall>e. r = Inl e \<longrightarrow> e = IndexError \<or> (\<exists>c. e = UnknownOutputLabelError c) \<or>
               (\<exists>c. e = RepeatedOutputLabelError c)"
            using split_output_cases[of env ?s] by blast
          from 2(2) show ?thesis
          proof (cases rule: bind_InlE)
            case 1
            with so r rank show ?thesis by auto
          next
            case (2 e3 io e4)
            obtain inp out where io: "io = (inp, out)" by (cases io)
            from 2(1) so have e3: "e3 = []" and r': "r = Inr io" by auto
            from 2(2) have ec: "einsum_compute env cs inp out = (e4, Inl e)"
              unfolding io by simp
            have "ev' = e4"
              using \<open>ev' = e1 @ e2\<close> \<open>e2 = e3 @ e4\<close> e1 e3 by simp
            with that[OF _ \<open>convert_inputs env ioperands = (evc, Inr cs)\<close> _ _ \<open>ev = evc @ ev'\<close>,
                of s0 inp out] Cons Str so r' io ec
            show ?thesis by simp
          qed
        qed
      qed
    qed
  qed
qed

lemma einsum_rank_error_log:
  fixes env :: "('d, 'a::comm_semiring_0) env"
  assumes run: "einsum env operands = (ev, Inl e)"
    and rank: "(\<exists>n. e = TooManySubscriptsError n) \<or> e = TooFewSubscriptsError"
  shows "\<exists>s0 evc cs inp out k.
      hd operands = Str s0 \<and> convert_inputs env (tl operands) = (evc, Inr cs) \<and> evc \<noteq> [] \<and>
      split_output env (filter (\<lambda>c. c \<noteq> CHR '' '') s0) = ([], Inr (inp, out)) \<and>
      length (split_comma inp) = length cs \<and> k < length cs \<and>
      (\<forall>(sub, c) \<in> set (take k (zip (split_comma inp) cs)).
         length sub = ndim c \<and> (\<exists>p. snd (SingleViewCalculator env c sub) = Inr p)) \<and>
      ev = evc @ concat (map (\<lambda>(sub, c). fst (SingleViewCalculator env c sub))
                           (take k (zip (split_comma inp) cs))) \<and>
      (iter_ok env \<longrightarrow> length (filter is_diagonal ev) =
         sum_list (map (\<lambda>(sub, c). length sub - card (set sub))
                     (take k (zip (split_comma inp) cs)))) \<and>
      list_all is_collapse (drop (length evc) ev) \<and>
      length (split_comma inp ! k) \<noteq> ndim (cs ! k) \<and>
      (ndim (cs ! k) < length (split_comma inp ! k) \<longrightarrow> e = TooManySubscriptsError k) \<and>
      (length (split_comma inp ! k) < ndim (cs ! k) \<longrightarrow> e = TooFewSubscriptsError)"
proof -
  from run rank obtain s0 ioperands evc cs inp out ev' where *:
    "operands = Str s0 # ioperands"
    "convert_inputs env ioperands = (evc, Inr cs)"
    "split_output env (filter (\<lambda>c. c \<noteq> CHR '' '') s0) = ([], Inr (inp, out))"
    "einsum_compute env cs inp out = (ev', Inl e)" "ev = evc @ ev'"
    by (rule einsum_rank_error_stage)
  let ?subs = "split_comma inp"
  from convert_inputs_Inr[OF *(2)] obtain d where d: "list_all (is_conversion d) evc"
    "length evc = length ioperands" "ioperands \<noteq> []"
    by blast
  then have evc: "evc \<noteq> []" by auto
  from einsum_compute_rank_error[OF *(4) rank]
  have len: "length ?subs = length cs" and loop: "i_parsers_loop env 0 ?subs cs = (ev', Inl e)"
    by simp_all
  from i_parsers_loop_rank_error[OF loop rank]
  obtain k where k: "k < length ?subs" "k < length cs"
    "\<forall>(sub, c) \<in> set (take k (zip ?subs cs)).
        length sub = ndim c \<and> (\<exists>p. snd (SingleViewCalculator env c sub) = Inr p)"
    "ev' = concat (map (\<lambda>(sub, c). fst (SingleViewCalculator env c sub)) (take k (zip ?subs cs)))"
    "length (?subs ! k) \<noteq> ndim (cs ! k)"
    "ndim (cs ! k) < length (?subs ! k) \<longrightarrow> e = TooManySubscriptsError (0 + k)"
    "length (?subs ! k) < ndim (cs ! k) \<longrightarrow> e = TooFewSubscriptsError"
    by blast
  have col: "list_all is_collapse ev'"
    unfolding k(4) by (rule is_collapse_concat)
  have cnt: "iter_ok env \<longrightarrow> length (filter is_diagonal ev) =
         sum_list (map (\<lambda>(sub, c). length sub - card (set sub)) (take k (zip ?subs cs)))"
  proof
    assume ok: "iter_ok env"
    have "\<forall>(sub, c) \<in> set (take k (zip ?subs cs)). length sub = ndim c"
      using k(3) by auto
    from diagonals_concat[OF ok this] conversions_no_diagonal[OF d(1)]
    show "length (filter is_diagonal ev) =
         sum_list (map (\<lambda>(sub, c). length sub - card (set sub)) (take k (zip ?subs cs)))"
      unfolding *(5) k(4) by simp
  qed
  show ?thesis
    apply (rule exI[of _ s0], rule exI[of _ evc], rule exI[of _ cs], rule exI[of _ inp],
        rule exI[of _ out], rule exI[of _ k])
    using * evc len k(2,3,5,6,7) col cnt k(4) by simp
qed

text \<open>
  C4, as amended. The malformed-arrow, unknown-output-label, repeated-output-label and
  operand-count errors are raised after every operand has been converted to the common
  dtype (the log holds exactly the events of the complete conversion, one per operand,
  and is never empty) and before any other array operation. A rank-mismatch error is
  raised for the first operand \<open>k\<close> whose subscript has not one label per axis, after
  that conversion and after the diagonal collapse of the operands before \<open>k\<close>: the
  log is the conversion log followed by the logs of SingleViewCalculator on those
  operands, each of which returned; it holds one diagonal event for every repeated
  occurrence of a label in their subscripts, and nothing but diagonal and rollaxis
  events after the conversions. Only the usage, type, ellipsis and invalid-character
  errors are raised with an empty log.
\<close>

theorem einsum_validation_errors_after_conversion:
  fixes env :: "('d, 'a::comm_semiring_0) env"
  assumes "einsum env operands = (ev, Inl e)"
  shows "(e = MalformedArrowError \<or> (\<exists>c. e = UnknownOutputLabelError c) \<or>
          (\<exists>c. e = RepeatedOutputLabelError c) \<or> e = FewerOperandsError \<or> e = MoreOperandsError
          \<longrightarrow> (\<exists>cs. convert_inputs env (tl operands) = (ev, Inr cs)) \<and>
              length ev = length (tl operands) \<and> ev \<noteq> []) \<and>
         ((\<exists>n. e = TooManySubscriptsError n) \<or> e = TooFewSubscriptsError
          \<longrightarrow> (\<exists>s0 evc cs inp out k.
                hd operands = Str s0 \<and>
                convert_inputs env (tl operands) = (evc, Inr cs) \<and> evc \<noteq> [] \<and>
                split_output env (filter (\<lambda>c. c \<noteq> CHR '' '') s0) = ([], Inr (inp, out)) \<and>
                length (split_comma inp) = length cs \<and> k < length cs \<and>
                (\<forall>(sub, c) \<in> set (take k (zip (split_comma inp) cs)).
                   length sub = ndim c \<and> (\<exists>p. snd (SingleViewCalculator env c sub) = Inr p)) \<and>
                ev = evc @ concat (map (\<lambda>(sub, c). fst (SingleViewCalculator env c sub))
                                     (take k (zip (split_comma inp) cs))) \<and>
                (iter_ok env \<longrightarrow> length (filter is_diagonal ev) =
                   sum_list (map (\<lambda>(sub, c). length sub - card (set sub))
                               (take k (zip (split_comma inp) cs)))) \<and>
                list_all is_collapse (drop (length evc) ev) \<and>
                length (split_comma inp ! k) \<noteq> ndim (cs ! k) \<and>
                (ndim (cs ! k) < length (split_comma inp ! k) \<longrightarrow> e = TooManySubscriptsError k) \<and>
                (length (split_comma inp ! k) < ndim (cs ! k) \<longrightarrow> e = TooFewSubscriptsError))) \<and>
         (e = UsageError \<or> e = SubscriptsTypeError \<or> e = EllipsisError \<or>
          (\<exists>c. e = InvalidSubscriptError c) \<longrightarrow> ev = [])"
  using einsum_error_log[OF assms] einsum_rank_error_log[OF assms]
  by blast

theorem einsum_validation_errors_after_conversion_witness:
  "einsum example_env
     [Str ''ii,j'', Ndarray (mk_array Int32 [2, 2] [1, 2, 3, 4]),
      Ndarray (mk_array Int64 [2, 2] [1, 2, 3, 4])] =
     ([EvAstype Int64, EvAstype Int64, EvDiagonal 1 0, EvRollaxis (- 1) 0],
      Inl TooFewSubscriptsError) \<and>
   (\<exists>cs inp out k.
      convert_inputs example_env
        (tl [Str ''ii,j'', Ndarray (mk_array Int32 [2, 2] [1, 2, 3, 4]),
             Ndarray (mk_array Int64 [2, 2] [1, 2, 3, 4])]) =
        ([EvAstype Int64, EvAstype Int64], Inr cs) \<and>
      split_output example_env ''ii,j'' = ([], Inr (inp, out)) \<and> k < length cs \<and>
      [EvAstype Int64, EvAstype Int64, EvDiagonal 1 0, EvRollaxis (- 1) 0] =
        [EvAstype Int64, EvAstype Int64] @
        concat (map (\<lambda>(sub, c). fst (SingleViewCalculator example_env c sub))
                  (take k (zip (split_comma inp) cs))) \<and>
      length (filter is_diagonal
         [EvAstype Int64, EvAstype Int64, EvDiagonal 1 0, EvRollaxis (- 1) 0]) =
        sum_list (map (\<lambda>(sub, c). length sub - card (set sub))
                    (take k (zip (split_comma inp) cs))))"
proof -
  let ?ops = "[Str ''ii,j'', Ndarray (mk_array Int32 [2, 2] [1, 2, 3, 4]),
      Ndarray (mk_array Int64 [2, 2] [1, 2, 3, 4 :: int])]"
  let ?log = "[EvAstype Int64, EvAstype Int64, EvDiagonal 1 0, EvRollaxis (- 1) 0]"
  have run: "einsum example_env ?ops = (?log, Inl TooFewSubscriptsError)"
    by (simp add: run_defs example_env_def mk_array_def)
  have conv: "convert_inputs example_env (tl ?ops) =
     ([EvAstype Int64, EvAstype Int64],
      Inr [astype Int64 (mk_array Int32 [2, 2] [1, 2, 3, 4]),
           astype Int64 (mk_array Int64 [2, 2] [1, 2, 3, 4])])"
    by (simp add: convert_inputs_def numpy_result_type_def example_env_def mk_array_def)
  from einsum_validation_errors_after_conversion[OF run] example_iter_ok
  obtain s0 evc cs inp out k where *:
    "hd ?ops = Str s0" "convert_inputs example_env (tl ?ops) = (evc, Inr cs)"
    "split_output example_env (filter (\<lambda>c. c \<noteq> CHR '' '') s0) = ([], Inr (inp, out))"
    "k < length cs"
    "?log = evc @ concat (map (\<lambda>(sub, c). fst (SingleViewCalculator example_env c sub))
                                     (take k (zip (split_comma inp) cs)))"
    "length (filter is_diagonal ?log) =
       sum_list (map (\<lambda>(sub, c). length sub - card (set sub)) (take k (zip (split_comma inp) cs)))"
    by blast
  from *(1) have s0: "s0 = ''ii,j''" by simp
  from *(2) conv have evc: "evc = [EvAstype Int64, EvAstype Int64]" by simp
  show ?thesis
    using run *(2-6) unfolding s0 evc by (intro conjI exI[of _ cs] exI[of _ inp] exI[of _ out] exI[of _ k]) simp_all
qed

theorem einsum_malformed_arrow_after_conversion_counterexample:
  "einsum example_env [Str ''i-'', Ndarray (mk_array Int32 [2] [1, 2])] =
     ([EvAstype Int32], Inl MalformedArrowError)"
  by (simp add: einsum_def ascii_letters_def convert_inputs_def numpy_result_type_def
      check_arrow_def str_find_def example_env_def mk_array_def)

end
